theory Spec2Isabelle
  imports Complex_Main "HOL-Library.Multiset"
begin

section \<open>Data model\<close>

text \<open>
  The route-generation engine of RouteSimply (the server's routes module and the shared
  schema). JavaScript numbers are modelled as the real numbers they approximate, or as
  \<open>nat\<close>/\<open>int\<close> where the code only ever holds an integer (sequence numbers, counts,
  minutes). \<open>null\<close> and \<open>undefined\<close> are \<open>None\<close>.
\<close>

text \<open>A row of the \<open>locations\<close> table, at the columns the engine reads.\<close>

record Location =
  loc_id :: string
  loc_address :: string
  loc_customerName :: string
  loc_serviceType :: "string option"
  loc_notes :: "string option"
  loc_lat :: "real option"
  loc_lng :: "real option"

text \<open>
  The interface \<open>RouteStop\<close>. The interface declares \<open>id\<close>, \<open>locationId\<close>,
  \<open>address\<close> and \<open>customerName\<close> as plain strings; they are optional here because the
  optimizer adapter can build an object that has a \<open>sequence\<close> and nothing else (see
  \<open>withSequence\<close> below), and that object is stored in a route like any other.
\<close>

record RouteStop =
  stop_id :: "string option"
  locationId :: "string option"
  address :: "string option"
  customerName :: "string option"
  serviceType :: "string option"
  stop_notes :: "string option"
  lat :: "real option"
  lng :: "real option"
  sequence :: nat

text \<open>A row of the \<open>work_locations\<close> table (the depot), at the columns read.\<close>

record WorkLocation =
  wl_id :: string
  wl_name :: string
  wl_address :: string
  wl_lat :: real
  wl_lng :: real

text \<open>What \<open>storage.createRoute\<close> is given for one route.\<close>

record Route =
  date :: string
  dayOfWeek :: string
  stopsJson :: "RouteStop list"
  routeLink :: string
  totalDistance :: "real option"
  estimatedTime :: "int option"
  status :: string
  stopCount :: nat
  driverId :: "string option"
  driverName :: "string option"

section \<open>Distance function\<close>

text \<open>\<open>Math.atan2\<close> on the reals.\<close>

definition atan2 :: "real \<Rightarrow> real \<Rightarrow> real" where
  "atan2 y x =
     (if 0 < x then arctan (y / x)
      else if x < 0 then (if 0 \<le> y then arctan (y / x) + pi else arctan (y / x) - pi)
      else if 0 < y then pi / 2
      else if y < 0 then - (pi / 2)
      else 0)"

text \<open>
  The quantity \<open>a\<close> of \<open>calculateHaversineDistance\<close>. It lies between 0 and 1
  (\<open>haversine_a_range\<close> below), so both square roots are taken of numbers that are not
  negative.
\<close>

definition haversine_a :: "real \<Rightarrow> real \<Rightarrow> real \<Rightarrow> real \<Rightarrow> real" where
  "haversine_a lat1 lon1 lat2 lon2 =
     (let dLat = (lat2 - lat1) * (pi / 180);
          dLon = (lon2 - lon1) * (pi / 180)
      in sin (dLat / 2) * sin (dLat / 2) +
         cos (lat1 * (pi / 180)) * cos (lat2 * (pi / 180)) * sin (dLon / 2) * sin (dLon / 2))"

definition calculateHaversineDistance :: "real \<Rightarrow> real \<Rightarrow> real \<Rightarrow> real \<Rightarrow> real" where
  "calculateHaversineDistance lat1 lon1 lat2 lon2 =
     (let R = 6371000;
          a = haversine_a lat1 lon1 lat2 lon2;
          c = 2 * atan2 (sqrt a) (sqrt (1 - a))
      in R * c)"

text \<open>\<open>Math.round\<close>: the nearest integer, halves rounded up.\<close>

definition Math_round :: "real \<Rightarrow> int" where
  "Math_round x = \<lfloor>x + 1 / 2\<rfloor>"

section \<open>Distance estimator\<close>

text \<open>
  The loop of \<open>calculateRouteDistance\<close>: \<open>totalMeters\<close> is the running sum, the list is
  what remains from index \<open>i\<close> on. A pair with a missing coordinate ends the function
  with \<open>null\<close>.
\<close>

fun sumLegs :: "real \<Rightarrow> RouteStop list \<Rightarrow> real option" where
  "sumLegs totalMeters (current # next # rest) =
     (if lat current = None \<or> lng current = None \<or> lat next = None \<or> lng next = None
      then None
      else sumLegs
             (totalMeters +
                calculateHaversineDistance (the (lat current)) (the (lng current))
                  (the (lat next)) (the (lng next)))
             (next # rest))"
| "sumLegs totalMeters [current] = Some totalMeters"
| "sumLegs totalMeters [] = Some totalMeters"

definition calculateRouteDistance :: "RouteStop list \<Rightarrow> real option" where
  "calculateRouteDistance stops =
     (if length stops < 2 then Some 0
      else case sumLegs 0 stops of
             None \<Rightarrow> None
           | Some totalMeters \<Rightarrow> Some (real_of_int (Math_round ((totalMeters / 1000) * 10)) / 10))"

text \<open>
  The specification's reading, for comparison: whether a stop has both coordinates, the
  Haversine length of the leg from stop \<open>i\<close> to stop \<open>i + 1\<close>, and rounding to one
  decimal.
\<close>

definition located :: "RouteStop \<Rightarrow> bool" where
  "located s \<longleftrightarrow> lat s \<noteq> None \<and> lng s \<noteq> None"



section \<open>Geographic clusterer\<close>

text \<open>
  A \<open>null\<close> operand counts as 0 in JavaScript arithmetic; this is what a coordinate
  read with \<open>!\<close> contributes when it is \<open>null\<close>.
\<close>

definition num :: "real option \<Rightarrow> real" where
  "num x = (case x of None \<Rightarrow> 0 | Some v \<Rightarrow> v)"

text \<open>The filter \<open>loc.lat != null && loc.lng != null\<close>.\<close>

definition hasCoords :: "Location \<Rightarrow> bool" where
  "hasCoords loc \<longleftrightarrow> loc_lat loc \<noteq> None \<and> loc_lng loc \<noteq> None"

record Centroid =
  centroid_lat :: real
  centroid_lng :: real

record CentroidSum =
  sum_lat :: real
  sum_lng :: real
  sum_count :: nat

text \<open>
  The comparison \<open>dist < minDist\<close>, where the running minimum starts at \<open>Infinity\<close>
  (\<open>None\<close>).
\<close>

definition lt_minDist :: "real \<Rightarrow> real option \<Rightarrow> bool" where
  "lt_minDist d minDist = (case minDist of None \<Rightarrow> True | Some m \<Rightarrow> d < m)"

text \<open>
  The inner loop over the centroids for one location: \<open>c\<close> is the index of the centroid
  at the head of the list.
\<close>

fun closestLoop :: "real \<Rightarrow> real \<Rightarrow> Centroid list \<Rightarrow> nat \<Rightarrow> real option \<Rightarrow> nat \<Rightarrow> nat" where
  "closestLoop lat1 lng1 [] c minDist closestCentroid = closestCentroid"
| "closestLoop lat1 lng1 (cen # rest) c minDist closestCentroid =
     (let distance = calculateHaversineDistance lat1 lng1 (centroid_lat cen) (centroid_lng cen)
      in if lt_minDist distance minDist then closestLoop lat1 lng1 rest (Suc c) (Some distance) c
         else closestLoop lat1 lng1 rest (Suc c) minDist closestCentroid)"

definition assignAll :: "Centroid list \<Rightarrow> Location list \<Rightarrow> nat list" where
  "assignAll centroids validLocations =
     map (\<lambda>loc. closestLoop (num (loc_lat loc)) (num (loc_lng loc)) centroids 0 None 0)
       validLocations"

text \<open>The loop that adds every location into the sums of its cluster.\<close>

fun sumMembers :: "CentroidSum list \<Rightarrow> nat list \<Rightarrow> Location list \<Rightarrow> CentroidSum list" where
  "sumMembers newCentroids (cluster # assignments) (loc # locs) =
     sumMembers
       (newCentroids[cluster :=
          \<lparr>sum_lat = sum_lat (newCentroids ! cluster) + num (loc_lat loc),
           sum_lng = sum_lng (newCentroids ! cluster) + num (loc_lng loc),
           sum_count = Suc (sum_count (newCentroids ! cluster))\<rparr>])
       assignments locs"
| "sumMembers newCentroids _ _ = newCentroids"

text \<open>The loop \<open>for (c = 0; c < k; c++)\<close> that replaces the centroids with members.\<close>

fun recompute :: "CentroidSum list \<Rightarrow> nat list \<Rightarrow> Centroid list \<Rightarrow> Centroid list" where
  "recompute newCentroids [] centroids = centroids"
| "recompute newCentroids (c # cs) centroids =
     recompute newCentroids cs
       (if 0 < sum_count (newCentroids ! c)
        then centroids[c :=
               \<lparr>centroid_lat = sum_lat (newCentroids ! c) / real (sum_count (newCentroids ! c)),
                centroid_lng = sum_lng (newCentroids ! c) / real (sum_count (newCentroids ! c))\<rparr>]
        else centroids)"

definition updateCentroids ::
  "nat \<Rightarrow> Centroid list \<Rightarrow> nat list \<Rightarrow> Location list \<Rightarrow> Centroid list" where
  "updateCentroids k centroids assignments validLocations =
     (let newCentroids =
            sumMembers (replicate k \<lparr>sum_lat = 0, sum_lng = 0, sum_count = 0\<rparr>)
              assignments validLocations
      in recompute newCentroids [0..<k] centroids)"

text \<open>
  The refinement loop; the first argument counts the iterations that are left of
  \<open>maxIterations\<close>.
\<close>

fun refine :: "nat \<Rightarrow> nat \<Rightarrow> Location list \<Rightarrow> Centroid list \<Rightarrow> nat list \<Rightarrow> nat list" where
  "refine 0 k validLocations centroids assignments = assignments"
| "refine (Suc left) k validLocations centroids assignments =
     (let newAssignments = assignAll centroids validLocations;
          hasConverged =
            list_all (\<lambda>i. newAssignments ! i = assignments ! i) [0..<length newAssignments]
      in if hasConverged then newAssignments
         else refine left k validLocations
                (updateCentroids k centroids newAssignments validLocations) newAssignments)"

fun groupByCluster ::
  "Location list list \<Rightarrow> nat list \<Rightarrow> Location list \<Rightarrow> Location list list" where
  "groupByCluster clusters (a # assignments) (loc # locs) =
     groupByCluster (clusters[a := clusters ! a @ [loc]]) assignments locs"
| "groupByCluster clusters _ _ = clusters"

definition initialCentroids :: "Location list \<Rightarrow> nat \<Rightarrow> Centroid list" where
  "initialCentroids validLocations k =
     (let step = length validLocations div k
      in map (\<lambda>i. let loc = validLocations ! (min (i * step) (length validLocations - 1))
                  in \<lparr>centroid_lat = num (loc_lat loc), centroid_lng = num (loc_lng loc)\<rparr>)
           [0..<k])"

definition kMeansClustering :: "Location list \<Rightarrow> int \<Rightarrow> Location list list" where
  "kMeansClustering locations k =
     (let validLocations = filter hasCoords locations
      in if length validLocations = 0 \<or> k \<le> 0 then []
         else if int (length validLocations) \<le> k then map (\<lambda>loc. [loc]) validLocations
         else
           let centroids = initialCentroids validLocations (nat k);
               assignments =
                 refine 20 (nat k) validLocations centroids
                   (replicate (length validLocations) 0);
               clusters = groupByCluster (replicate (nat k) []) assignments validLocations
           in filter (\<lambda>cluster. 0 < length cluster) clusters)"

section \<open>Intra-cluster sequencer\<close>

text \<open>
  The inner loop of \<open>nearestNeighborOrdering\<close> over the remaining locations: \<open>i\<close> is
  the index of the location at the head of the list.
\<close>

definition distanceBetween :: "Location \<Rightarrow> Location \<Rightarrow> real" where
  "distanceBetween current other =
     calculateHaversineDistance (num (loc_lat current)) (num (loc_lng current))
       (num (loc_lat other)) (num (loc_lng other))"

fun nearestLoop :: "Location \<Rightarrow> Location list \<Rightarrow> nat \<Rightarrow> nat \<Rightarrow> real option \<Rightarrow> nat" where
  "nearestLoop current [] i nearestIdx nearestDist = nearestIdx"
| "nearestLoop current (r # rest) i nearestIdx nearestDist =
     (let distance = distanceBetween current r
      in if lt_minDist distance nearestDist then nearestLoop current rest (Suc i) i (Some distance)
         else nearestLoop current rest (Suc i) nearestIdx nearestDist)"

text \<open>\<open>remaining.splice(nearestIdx, 1)\<close>: what is left of the list.\<close>

definition spliceOut :: "nat \<Rightarrow> 'a list \<Rightarrow> 'a list" where
  "spliceOut idx xs = take idx xs @ drop (Suc idx) xs"

lemma nearestLoop_bound:
  "nearestLoop current remaining i nearestIdx nearestDist < i + length remaining \<or>
   nearestLoop current remaining i nearestIdx nearestDist = nearestIdx"
proof (induction remaining arbitrary: i nearestIdx nearestDist)
  case Nil
  show ?case by simp
next
  case (Cons r rest)
  show ?case
  proof (cases "lt_minDist (distanceBetween current r) nearestDist")
    case True
    with Cons [of "Suc i" i "Some (distanceBetween current r)"] show ?thesis
      by (auto simp: Let_def)
  next
    case False
    with Cons [of "Suc i" nearestIdx nearestDist] show ?thesis
      by (auto simp: Let_def)
  qed
qed

lemma nearestLoop_in_range:
  "remaining \<noteq> [] \<Longrightarrow> nearestLoop current remaining 0 0 None < length remaining"
  using nearestLoop_bound [of current remaining 0 0 None] by auto

function walk :: "Location list \<Rightarrow> Location list \<Rightarrow> Location list" where
  "walk result remaining =
     (if remaining = [] then result
      else let current = last result;
               nearestIdx = nearestLoop current remaining 0 0 None
           in walk (result @ [remaining ! nearestIdx]) (spliceOut nearestIdx remaining))"
  by pat_completeness auto
termination
proof (relation "measure (\<lambda>(result, remaining). length remaining)")
  show "wf (measure (\<lambda>(result, remaining). length remaining))" by simp
next
  fix result remaining :: "Location list" and current nearestIdx
  assume "remaining \<noteq> []" "current = last result"
    "nearestIdx = nearestLoop current remaining 0 0 None"
  then have "nearestIdx < length remaining" by (simp add: nearestLoop_in_range)
  then show "((result @ [remaining ! nearestIdx], spliceOut nearestIdx remaining),
              (result, remaining)) \<in> measure (\<lambda>(result, remaining). length remaining)"
    by (simp add: spliceOut_def)
qed

declare walk.simps [simp del]

definition nearestNeighborOrdering :: "Location list \<Rightarrow> Location list" where
  "nearestNeighborOrdering locations =
     (if length locations \<le> 1 then locations
      else walk [hd locations] (tl locations))"

section \<open>Notions used to state the properties of the clusterer\<close>

text \<open>The members of cluster \<open>c\<close> under an assignment, in input order.\<close>

definition membersOf :: "nat \<Rightarrow> nat list \<Rightarrow> Location list \<Rightarrow> Location list" where
  "membersOf c assignments validLocations =
     map snd (filter (\<lambda>(a, loc). a = c) (zip assignments validLocations))"

definition meanOf :: "Location list \<Rightarrow> Centroid" where
  "meanOf members =
     \<lparr>centroid_lat = sum_list (map (\<lambda>loc. num (loc_lat loc)) members) / real (length members),
      centroid_lng = sum_list (map (\<lambda>loc. num (loc_lng loc)) members) / real (length members)\<rparr>"

section \<open>Notions used to state the properties of the sequencer\<close>

text \<open>
  The greedy nearest-neighbour walk in the specification's words: from \<open>current\<close>, with
  \<open>remaining\<close> the stops not yet visited in input order, the next stop is the one at
  index \<open>j\<close> whose distance to \<open>current\<close> is minimal, the earliest such index when several
  are at the same distance; the walk goes on from it with the others.
\<close>

inductive greedy_walk :: "Location \<Rightarrow> Location list \<Rightarrow> Location list \<Rightarrow> bool" where
  greedy_done: "greedy_walk current [] []"
| greedy_step:
    "j < length remaining \<Longrightarrow>
     (\<forall>i < length remaining.
        distanceBetween current (remaining ! j) \<le> distanceBetween current (remaining ! i)) \<Longrightarrow>
     (\<forall>i < j.
        distanceBetween current (remaining ! j) < distanceBetween current (remaining ! i)) \<Longrightarrow>
     greedy_walk (remaining ! j) (spliceOut j remaining) rest \<Longrightarrow>
     greedy_walk current remaining (remaining ! j # rest)"

section \<open>Example data\<close>

definition exampleLocation :: "string \<Rightarrow> real option \<Rightarrow> real option \<Rightarrow> Location" where
  "exampleLocation name la lo =
     \<lparr>loc_id = name, loc_address = name @ '' Main St'', loc_customerName = ''Customer '' @ name,
      loc_serviceType = None, loc_notes = None, loc_lat = la, loc_lng = lo\<rparr>"

definition exampleStop :: "string \<Rightarrow> real option \<Rightarrow> real option \<Rightarrow> nat \<Rightarrow> RouteStop" where
  "exampleStop name la lo n =
     \<lparr>stop_id = Some (''stop-'' @ name), locationId = Some name,
      address = Some (name @ '' Main St''), customerName = Some (''Customer '' @ name),
      serviceType = None, stop_notes = None, lat = la, lng = lo, sequence = n\<rparr>"

section \<open>External route optimizer adapter\<close>

text \<open>
  One entry of \<open>data.routes\<close> in the provider's answer, at the three fields the adapter
  requests; each may be absent.
\<close>

record GoogleRoute =
  distanceMeters :: "real option"
  duration :: "string option"
  optimizedIntermediateWaypointIndex :: "int list option"

text \<open>
  What the call to the provider comes to: \<open>fetch\<close> rejects (network error, timeout);
  \<open>response.json()\<close> rejects (the body is not JSON); or a parsed body arrives, with
  \<open>response.ok\<close> and \<open>data.routes\<close> (\<open>None\<close> when the field is absent). A body that
  parses is taken to follow the provider's schema.
\<close>

datatype FetchOutcome =
    FetchRejected
  | JsonRejected
  | Responded bool "GoogleRoute list option"

record RoutesRequest =
  req_origin :: "real option \<times> real option"
  req_destination :: "real option \<times> real option"
  req_intermediates :: "(real option \<times> real option) list"
  optimizeWaypointOrder :: bool

text \<open>
  Everything outside the module that route generation reads. \<open>fetchRoutes\<close> and
  \<open>randomUUID\<close> take the number of the route being built (and, for \<open>randomUUID\<close>, the
  number of the draw within it), so that different calls may answer differently;
  \<open>parseInt\<close> and \<open>toLowerCase\<close> are the JavaScript built-ins (\<open>None\<close> is \<open>NaN\<close>);
  \<open>today\<close> is \<open>format(new Date(), "yyyy-MM-dd")\<close>.
\<close>

record Env =
  GOOGLE_MAPS_API_KEY :: "string option"
  fetchRoutes :: "nat \<Rightarrow> RoutesRequest \<Rightarrow> FetchOutcome"
  parseInt :: "string \<Rightarrow> int option"
  randomUUID :: "nat \<Rightarrow> nat \<Rightarrow> string"
  getStartingPoint :: "WorkLocation option"
  getAllWorkLocations :: "WorkLocation list"
  toLowerCase :: "string \<Rightarrow> string"
  today :: string

record GoogleRoutesOptimizationResult =
  optimizedStops :: "RouteStop list"
  totalDistanceKm :: real
  estimatedTimeMinutes :: int

text \<open>Truthiness of a string that may be absent: absent and empty are falsy.\<close>

definition truthy :: "string option \<Rightarrow> bool" where
  "truthy s \<longleftrightarrow> s \<noteq> None \<and> s \<noteq> Some []"

text \<open>\<open>xs[idx]\<close>: \<open>undefined\<close> outside the list.\<close>

definition js_nth :: "'a list \<Rightarrow> int \<Rightarrow> 'a option" where
  "js_nth xs idx = (if 0 \<le> idx \<and> nat idx < length xs then Some (xs ! nat idx) else None)"

text \<open>\<open>xs.slice(1, -1)\<close>.\<close>

definition sliceInner :: "'a list \<Rightarrow> 'a list" where
  "sliceInner xs = butlast (tl xs)"

text \<open>
  \<open>{ ...stop, sequence: n }\<close>. Spreading \<open>undefined\<close> gives no property, so the object
  then has its \<open>sequence\<close> only.
\<close>

definition withSequence :: "RouteStop option \<Rightarrow> nat \<Rightarrow> RouteStop" where
  "withSequence stop n =
     (case stop of
        Some s \<Rightarrow> s\<lparr>sequence := n\<rparr>
      | None \<Rightarrow>
          \<lparr>stop_id = None, locationId = None, address = None, customerName = None,
           serviceType = None, stop_notes = None, lat = None, lng = None, sequence = n\<rparr>)"

text \<open>The duration, \<open>"1234s"\<close>, in whole minutes rounded up.\<close>

definition durationMinutes :: "Env \<Rightarrow> string option \<Rightarrow> int" where
  "durationMinutes env d =
     (if truthy d
      then let seconds = (case parseInt env (remove1 CHR ''s'' (the d)) of
                            None \<Rightarrow> 0 | Some v \<Rightarrow> v)
           in \<lceil>real_of_int seconds / 60\<rceil>
      else 0)"

text \<open>The request body built from the candidate list.\<close>

definition routesRequest :: "RouteStop list \<Rightarrow> RoutesRequest" where
  "routesRequest stops =
     (let origin = stops ! 0;
          destination = stops ! (length stops - 1);
          intermediates = sliceInner stops
      in \<lparr>req_origin = (lat origin, lng origin),
          req_destination = (lat destination, lng destination),
          req_intermediates = map (\<lambda>stop. (lat stop, lng stop)) intermediates,
          optimizeWaypointOrder = (0 < length intermediates)\<rparr>)"

datatype thrown = Thrown

text \<open>
  The body of the \<open>try\<close>, entered with at least two stops; \<open>Inl Thrown\<close> is an
  exception that the \<open>catch\<close> receives.
\<close>

definition tryComputeRoutes ::
  "Env \<Rightarrow> nat \<Rightarrow> RouteStop list \<Rightarrow> thrown + GoogleRoutesOptimizationResult option" where
  "tryComputeRoutes env call stops =
     (let origin = stops ! 0;
          destination = stops ! (length stops - 1);
          intermediates = sliceInner stops;
          requestBody = routesRequest stops
      in case fetchRoutes env call requestBody of
           FetchRejected \<Rightarrow> Inl Thrown
         | JsonRejected \<Rightarrow> Inl Thrown
         | Responded ok data_routes \<Rightarrow>
             if \<not> ok then Inr None
             else (case data_routes of
                     None \<Rightarrow> Inr None
                   | Some [] \<Rightarrow> Inr None
                   | Some (route # _) \<Rightarrow>
                       let km =
                             real_of_int (Math_round ((num (distanceMeters route) / 1000) * 10)) / 10;
                           minutes = durationMinutes env (duration route);
                           reordered =
                             (case optimizedIntermediateWaypointIndex route of
                                Some indices \<Rightarrow>
                                  if 0 < length intermediates
                                  then [Some origin] @ map (js_nth intermediates) indices @
                                       [Some destination]
                                  else map Some stops
                              | None \<Rightarrow> map Some stops)
                       in Inr (Some
                            \<lparr>optimizedStops =
                               map (\<lambda>(index, stop). withSequence stop (index + 1))
                                 (enumerate 0 reordered),
                             totalDistanceKm = km,
                             estimatedTimeMinutes = minutes\<rparr>)))"

definition optimizeRouteWithGoogle ::
  "Env \<Rightarrow> nat \<Rightarrow> RouteStop list \<Rightarrow> GoogleRoutesOptimizationResult option" where
  "optimizeRouteWithGoogle env call stops =
     (if \<not> truthy (GOOGLE_MAPS_API_KEY env) then None
      else if length stops < 2 then None
      else if length (filter (\<lambda>s. lat s \<noteq> None \<and> lng s \<noteq> None) stops) \<noteq> length stops then None
      else case tryComputeRoutes env call stops of
             Inl Thrown \<Rightarrow> None
           | Inr result \<Rightarrow> result)"

section \<open>Map link\<close>

text \<open>
  \<open>encodeURIComponent\<close> on UTF-8 text: every byte is escaped as \<open>%XX\<close> except the
  letters, the digits and \<open>- _ . ! ~ * ' ( )\<close>.
\<close>

definition unreserved :: "char \<Rightarrow> bool" where
  "unreserved c \<longleftrightarrow>
     c \<in> set (''ABCDEFGHIJKLMNOPQRSTUVWXYZabcdefghijklmnopqrstuvwxyz0123456789-_.!~*()'' @
              [CHR 0x27])"

definition hexDigit :: "nat \<Rightarrow> char" where
  "hexDigit n = ''0123456789ABCDEF'' ! n"

definition encodeByte :: "char \<Rightarrow> string" where
  "encodeByte c =
     (if unreserved c then [c]
      else [CHR ''%'', hexDigit (of_char c div 16), hexDigit (of_char c mod 16)])"

definition encodeURIComponent :: "string \<Rightarrow> string" where
  "encodeURIComponent s = concat (map encodeByte s)"

text \<open>\<open>Array.prototype.join\<close>.\<close>

fun join :: "string \<Rightarrow> string list \<Rightarrow> string" where
  "join sep [] = []"
| "join sep [x] = x"
| "join sep (x # y # ys) = x @ sep @ join sep (y # ys)"

text \<open>A missing address is passed to \<open>encodeURIComponent\<close> as the text \<open>undefined\<close>.\<close>

definition addressText :: "RouteStop \<Rightarrow> string" where
  "addressText stop = (case address stop of None \<Rightarrow> ''undefined'' | Some a \<Rightarrow> a)"

definition generateGoogleMapsUrl :: "RouteStop list \<Rightarrow> string" where
  "generateGoogleMapsUrl stops =
     (if length stops = 0 then ''''
      else let baseUrl = ''https://www.google.com/maps/dir/'';
               encodedAddresses = map (\<lambda>stop. encodeURIComponent (addressText stop)) stops
           in baseUrl @ join ''/'' encodedAddresses)"

section \<open>Route assembly\<close>

text \<open>\<open>x || d\<close> on a string that may be absent, and on a number that may be absent.\<close>

definition orElse :: "string option \<Rightarrow> string \<Rightarrow> string" where
  "orElse x d = (case x of None \<Rightarrow> d | Some s \<Rightarrow> if s = [] then d else s)"

definition orElseNum :: "real option \<Rightarrow> real \<Rightarrow> real" where
  "orElseNum x d = (case x of None \<Rightarrow> d | Some v \<Rightarrow> if v = 0 then d else v)"

text \<open>\<open>x || undefined\<close>.\<close>

definition orUndefined :: "string option \<Rightarrow> string option" where
  "orUndefined x = (case x of None \<Rightarrow> None | Some s \<Rightarrow> if s = [] then None else Some s)"

definition orUndefinedNum :: "real option \<Rightarrow> real option" where
  "orUndefinedNum x = (case x of None \<Rightarrow> None | Some v \<Rightarrow> if v = 0 then None else Some v)"

text \<open>The depot: the designated starting point, else the work location named warehouse.\<close>

definition warehouse :: "Env \<Rightarrow> WorkLocation option" where
  "warehouse env =
     (case getStartingPoint env of
        Some startingPoint \<Rightarrow> Some startingPoint
      | None \<Rightarrow> find (\<lambda>wl. toLowerCase env (wl_name wl) = ''warehouse'') (getAllWorkLocations env))"

definition createWarehouseStop :: "Env \<Rightarrow> string \<Rightarrow> nat \<Rightarrow> bool \<Rightarrow> RouteStop" where
  "createWarehouseStop env uuid n isStart =
     \<lparr>stop_id = Some uuid,
      locationId = Some (orElse (map_option wl_id (warehouse env)) ''warehouse''),
      address = Some (orElse (map_option wl_address (warehouse env))
                        ''3700 Pennington Ave Baltimore, MD 21226''),
      customerName =
        Some (if isStart then ''Start: '' @ orElse (map_option wl_name (warehouse env)) ''Warehouse''
              else ''End: '' @ orElse (map_option wl_name (warehouse env)) ''Warehouse''),
      serviceType = None,
      stop_notes = Some (if isStart then ''Load truck and begin route''
                         else ''Return to starting point''),
      lat = Some (orElseNum (map_option wl_lat (warehouse env)) 39.23128),
      lng = Some (orElseNum (map_option wl_lng (warehouse env)) (- 76.58923)),
      sequence = n\<rparr>"

text \<open>The delivery stop made of a location, at position \<open>index\<close> of its route.\<close>

definition deliveryStop :: "string \<Rightarrow> Location \<Rightarrow> nat \<Rightarrow> RouteStop" where
  "deliveryStop uuid loc index =
     \<lparr>stop_id = Some uuid,
      locationId = Some (loc_id loc),
      address = Some (loc_address loc),
      customerName = Some (loc_customerName loc),
      serviceType = orUndefined (loc_serviceType loc),
      stop_notes = orUndefined (loc_notes loc),
      lat = orUndefinedNum (loc_lat loc),
      lng = orUndefinedNum (loc_lng loc),
      sequence = index + 2\<rparr>"

definition mkDeliveryStops :: "Env \<Rightarrow> nat \<Rightarrow> Location list \<Rightarrow> RouteStop list" where
  "mkDeliveryStops env route locs =
     map (\<lambda>(index, loc). deliveryStop (randomUUID env route index) loc index) (enumerate 0 locs)"

text \<open>\<open>deliveryStops.forEach((stop, idx) => { stop.sequence = idx + 2 })\<close>.\<close>

definition renumber :: "RouteStop list \<Rightarrow> RouteStop list" where
  "renumber deliveryStops =
     map (\<lambda>(idx, stop). stop\<lparr>sequence := idx + 2\<rparr>) (enumerate 0 deliveryStops)"

text \<open>
  \<open>totalDistance ? Math.round((totalDistance / 40) * 60) + n * 5 : n * 15\<close>; \<open>null\<close> and 0
  are falsy.
\<close>

definition heuristicTime :: "real option \<Rightarrow> nat \<Rightarrow> int" where
  "heuristicTime km n =
     (case km of
        None \<Rightarrow> int n * 15
      | Some d \<Rightarrow> if d = 0 then int n * 15 else Math_round ((d / 40) * 60) + int n * 5)"

text \<open>
  The candidate list handed to the optimizer for route number \<open>route\<close>: the depot, the
  delivery stops of the locations in the order given, the depot.
\<close>

definition fullRouteForOptimization :: "Env \<Rightarrow> nat \<Rightarrow> Location list \<Rightarrow> RouteStop list" where
  "fullRouteForOptimization env route locs =
     (let deliveryStops = mkDeliveryStops env route locs;
          warehouseStart =
            createWarehouseStop env (randomUUID env route (length deliveryStops)) 1 True;
          warehouseEnd =
            createWarehouseStop env (randomUUID env route (length deliveryStops + 1))
              (length deliveryStops + 2) False
      in [warehouseStart] @ deliveryStops @ [warehouseEnd])"

text \<open>The final stop list: the depot stops are made anew around the delivery stops.\<close>

definition finalStops :: "Env \<Rightarrow> nat \<Rightarrow> nat \<Rightarrow> RouteStop list \<Rightarrow> RouteStop list" where
  "finalStops env route n deliveryStops =
     (let finalWarehouseStart = createWarehouseStop env (randomUUID env route (n + 2)) 1 True;
          finalWarehouseEnd =
            createWarehouseStop env (randomUUID env route (n + 3))
              (length deliveryStops + 2) False
      in [finalWarehouseStart] @ deliveryStops @ [finalWarehouseEnd])"

text \<open>The argument of \<open>storage.createRoute\<close>.\<close>

definition draftRoute ::
  "Env \<Rightarrow> string \<Rightarrow> string option \<Rightarrow> RouteStop list \<Rightarrow> real option \<Rightarrow> int option \<Rightarrow> Route" where
  "draftRoute env day scheduledDate stops distance minutes =
     \<lparr>date = orElse scheduledDate (today env),
      dayOfWeek = day,
      stopsJson = stops,
      routeLink = generateGoogleMapsUrl stops,
      totalDistance = distance,
      estimatedTime = minutes,
      status = ''draft'',
      stopCount = length stops,
      driverId = None,
      driverName = None\<rparr>"

text \<open>
  The body of the loop over the clusters, for cluster number \<open>route\<close>.
\<close>

definition routeForCluster :: "Env \<Rightarrow> string \<Rightarrow> string option \<Rightarrow> nat \<Rightarrow> Location list \<Rightarrow> Route" where
  "routeForCluster env day scheduledDate route cluster =
     (let orderedLocations = nearestNeighborOrdering cluster;
          deliveryStops = mkDeliveryStops env route orderedLocations;
          googleResult =
            optimizeRouteWithGoogle env route (fullRouteForOptimization env route orderedLocations);
          deliveryStops' =
            (case googleResult of
               Some g \<Rightarrow> renumber (sliceInner (optimizedStops g))
             | None \<Rightarrow> deliveryStops);
          stops = finalStops env route (length deliveryStops) deliveryStops';
          distance =
            (case googleResult of
               Some g \<Rightarrow> Some (totalDistanceKm g)
             | None \<Rightarrow> calculateRouteDistance stops);
          minutes =
            (case googleResult of
               Some g \<Rightarrow> Some (estimatedTimeMinutes g)
             | None \<Rightarrow> Some (heuristicTime distance (length deliveryStops')))
      in draftRoute env day scheduledDate stops distance minutes)"

text \<open>
  The body of the round-robin loop, for block number \<open>route\<close> with the locations
  \<open>routeLocations\<close>.
\<close>

definition routeForBlock :: "Env \<Rightarrow> string \<Rightarrow> string option \<Rightarrow> nat \<Rightarrow> Location list \<Rightarrow> Route" where
  "routeForBlock env day scheduledDate route routeLocations =
     (let deliveryStops = mkDeliveryStops env route routeLocations;
          warehouseStart =
            createWarehouseStop env (randomUUID env route (length deliveryStops)) 1 True;
          stopsHaveCoords =
            (list_all (\<lambda>s. lat s \<noteq> None \<and> lng s \<noteq> None) deliveryStops \<and>
             lat warehouseStart \<noteq> None \<and> lng warehouseStart \<noteq> None);
          googleResult =
            (if stopsHaveCoords
             then optimizeRouteWithGoogle env route
                    (fullRouteForOptimization env route routeLocations)
             else None);
          deliveryStops' =
            (case googleResult of
               Some g \<Rightarrow> renumber (sliceInner (optimizedStops g))
             | None \<Rightarrow> deliveryStops);
          stops = finalStops env route (length deliveryStops) deliveryStops';
          distance =
            (case googleResult of
               Some g \<Rightarrow> Some (totalDistanceKm g)
             | None \<Rightarrow> if stopsHaveCoords then calculateRouteDistance stops else None);
          minutes =
            (case googleResult of
               Some g \<Rightarrow> Some (estimatedTimeMinutes g)
             | None \<Rightarrow>
                 if stopsHaveCoords then Some (heuristicTime distance (length deliveryStops'))
                 else Some (int (length deliveryStops') * 15))
      in draftRoute env day scheduledDate stops distance minutes)"

text \<open>\<open>xs.slice(startIndex, endIndex)\<close> for \<open>startIndex \<le> endIndex \<le> length xs\<close>.\<close>

definition slice :: "nat \<Rightarrow> nat \<Rightarrow> 'a list \<Rightarrow> 'a list" where
  "slice startIndex endIndex xs = take (endIndex - startIndex) (drop startIndex xs)"

text \<open>
  The round-robin loop, from block number \<open>i\<close> on. The driver count is an integer, as
  the admin page sends it.
\<close>

function roundRobin ::
  "Env \<Rightarrow> string \<Rightarrow> string option \<Rightarrow> Location list \<Rightarrow> int \<Rightarrow> nat \<Rightarrow> nat \<Rightarrow> Route list" where
  "roundRobin env day scheduledDate dayLocations driverCount stopsPerDriver i =
     (if int i < driverCount
      then let startIndex = i * stopsPerDriver;
               endIndex = min (startIndex + stopsPerDriver) (length dayLocations)
           in if length dayLocations \<le> startIndex then []
              else routeForBlock env day scheduledDate i (slice startIndex endIndex dayLocations) #
                   roundRobin env day scheduledDate dayLocations driverCount stopsPerDriver (Suc i)
      else [])"
  by pat_completeness auto
termination
  by (relation "measure (\<lambda>(env, day, scheduledDate, dayLocations, driverCount, stopsPerDriver, i).
        nat (driverCount - int i))") auto

declare roundRobin.simps [simp del]

definition generateRoutesForDay ::
  "Env \<Rightarrow> Location list \<Rightarrow> int \<Rightarrow> string \<Rightarrow> string option \<Rightarrow> Route list" where
  "generateRoutesForDay env dayLocations driverCount day scheduledDate =
     (let locationsWithCoords = filter hasCoords dayLocations;
          hasCoordinates =
            (length locationsWithCoords = length dayLocations \<and> 0 < length dayLocations)
      in if hasCoordinates
         then let clusters = kMeansClustering dayLocations driverCount
              in map (\<lambda>(route, cluster). routeForCluster env day scheduledDate route cluster)
                   (filter (\<lambda>(route, cluster). length cluster \<noteq> 0) (enumerate 0 clusters))
         else let stopsPerDriver = nat \<lceil>real (length dayLocations) / real_of_int driverCount\<rceil>
              in roundRobin env day scheduledDate dayLocations driverCount stopsPerDriver 0)"

section \<open>Example environments\<close>

text \<open>
  No credentials; and a provider that answers every request with 10 km, 900 s and a
  given index list.
\<close>

definition exampleEnv :: Env where
  "exampleEnv =
     \<lparr>GOOGLE_MAPS_API_KEY = None,
      fetchRoutes = (\<lambda>call req. FetchRejected),
      parseInt = (\<lambda>s. None),
      randomUUID = (\<lambda>route draw. ''00000000-0000-4000-8000-000000000000''),
      getStartingPoint = None,
      getAllWorkLocations = [],
      toLowerCase = (\<lambda>s. s),
      today = ''2026-01-05''\<rparr>"

definition exampleAnswer :: "int list \<Rightarrow> FetchOutcome" where
  "exampleAnswer indices =
     Responded True
       (Some [\<lparr>distanceMeters = Some 10000, duration = Some ''900s'',
               optimizedIntermediateWaypointIndex = Some indices\<rparr>])"

definition exampleEnvGoogle :: "int list \<Rightarrow> Env" where
  "exampleEnvGoogle indices =
     exampleEnv
       \<lparr>GOOGLE_MAPS_API_KEY := Some ''key'',
        fetchRoutes := (\<lambda>call req. exampleAnswer indices),
        parseInt := (\<lambda>s. if s = ''900'' then Some 900 else None)\<rparr>"


text \<open>
  An example environment whose provider answers every request with the submitted
  intermediates in reverse order.
\<close>

definition exampleEnvReversing :: Env where
  "exampleEnvReversing =
     exampleEnv
       \<lparr>GOOGLE_MAPS_API_KEY := Some ''key'',
        fetchRoutes :=
          (\<lambda>call req.
             Responded True
               (Some [\<lparr>distanceMeters = Some 10000, duration = Some ''900s'',
                       optimizedIntermediateWaypointIndex =
                         Some (rev (map int [0..<length (req_intermediates req)]))\<rparr>])),
        parseInt := (\<lambda>s. if s = ''900'' then Some 900 else None)\<rparr>"

text \<open>Five example stops without coordinates.\<close>

definition fiveUnlocated :: "Location list" where
  "fiveUnlocated =
     [exampleLocation ''A'' None None, exampleLocation ''B'' None None,
      exampleLocation ''C'' None None, exampleLocation ''D'' None None,
      exampleLocation ''E'' None None]"

section \<open>Notions used to state the properties of route assembly\<close>

text \<open>
  The map link in the specification's words: the directions prefix, then the encoded
  addresses in order with a slash between neighbours.
\<close>

definition directionsUrl :: "RouteStop list \<Rightarrow> string" where
  "directionsUrl stops =
     ''https://www.google.com/maps/dir/'' @ encodeURIComponent (addressText (hd stops)) @
     concat (map (\<lambda>stop. ''/'' @ encodeURIComponent (addressText stop)) (tl stops))"

text \<open>
  The delivery stops that a loop body keeps, given the optimizer's answer.
\<close>

definition adoptedStops ::
  "GoogleRoutesOptimizationResult option \<Rightarrow> RouteStop list \<Rightarrow> RouteStop list" where
  "adoptedStops googleResult deliveryStops =
     (case googleResult of
        Some g \<Rightarrow> renumber (sliceInner (optimizedStops g))
      | None \<Rightarrow> deliveryStops)"

text \<open>Whether the round-robin body asks the optimizer: \<open>stopsHaveCoords\<close>.\<close>

definition stopsHaveCoords :: "Env \<Rightarrow> nat \<Rightarrow> Location list \<Rightarrow> bool" where
  "stopsHaveCoords env route routeLocations \<longleftrightarrow>
     list_all (\<lambda>s. lat s \<noteq> None \<and> lng s \<noteq> None) (mkDeliveryStops env route routeLocations)"

definition blockResult ::
  "Env \<Rightarrow> nat \<Rightarrow> Location list \<Rightarrow> GoogleRoutesOptimizationResult option" where
  "blockResult env route routeLocations =
     (if stopsHaveCoords env route routeLocations
      then optimizeRouteWithGoogle env route (fullRouteForOptimization env route routeLocations)
      else None)"


text \<open>
  Block number \<open>j\<close> of a list cut into consecutive blocks of the given size, and the
  number of such blocks that are not empty.
\<close>

definition blockOf :: "nat \<Rightarrow> nat \<Rightarrow> 'a list \<Rightarrow> 'a list" where
  "blockOf sz j xs = take sz (drop (j * sz) xs)"

definition blockCount :: "nat \<Rightarrow> nat \<Rightarrow> nat" where
  "blockCount sz n = (n + sz - 1) div sz"

text \<open>
  A delivery stop of the given locations: it carries the identifier, the address and the
  customer name of one of them.
\<close>

definition isDeliveryStopOf :: "Location list \<Rightarrow> RouteStop \<Rightarrow> bool" where
  "isDeliveryStopOf locs s \<longleftrightarrow>
     (\<exists>loc \<in> set locs. locationId s = Some (loc_id loc) \<and> address s = Some (loc_address loc) \<and>
        customerName s = Some (loc_customerName loc))"

text \<open>
  The provider only names intermediates that were submitted: every index of the first
  route of an answer is a position in the request's list of intermediates.
\<close>

definition indicesInRange :: "Env \<Rightarrow> bool" where
  "indicesInRange env \<longleftrightarrow>
     (\<forall>call req ok route rest indices idx.
        fetchRoutes env call req = Responded ok (Some (route # rest)) \<longrightarrow>
        optimizedIntermediateWaypointIndex route = Some indices \<longrightarrow>
        idx \<in> set indices \<longrightarrow> 0 \<le> idx \<and> nat idx < length (req_intermediates req))"

text \<open>The optimizer gives no result, whatever it is asked.\<close>

definition optimizerUnavailable :: "Env \<Rightarrow> bool" where
  "optimizerUnavailable env \<longleftrightarrow> (\<forall>call stops. optimizeRouteWithGoogle env call stops = None)"

section \<open>Properties of the distance function\<close>






section \<open>Properties of the distance estimator\<close>



lemma sumLegs_missing:
  "2 \<le> length stops \<Longrightarrow> \<exists>s \<in> set stops. \<not> located s \<Longrightarrow> sumLegs t stops = None"
proof (induction t stops rule: sumLegs.induct)
  case (1 totalMeters current "next" rest)
  show ?case
  proof (cases "located current \<and> located next")
    case False
    then show ?thesis by (auto simp: located_def)
  next
    case True
    then have co:
      "\<not> (lat current = None \<or> lng current = None \<or> lat next = None \<or> lng next = None)"
      by (auto simp: located_def)
    from True "1.prems" have ex: "\<exists>s \<in> set rest. \<not> located s" by auto
    then have len: "2 \<le> length (next # rest)" by (cases rest) auto
    from ex have ex': "\<exists>s \<in> set (next # rest). \<not> located s" by auto
    show ?thesis using "1.IH" [OF co len ex'] co by simp
  qed
qed simp_all





lemma calculateRouteDistance_missing:
  assumes "2 \<le> length stops" "\<exists>s \<in> set stops. \<not> located s"
  shows "calculateRouteDistance stops = None"
  using sumLegs_missing [OF assms] assms(1) by (simp add: calculateRouteDistance_def)




section \<open>Properties of the clusterer\<close>

lemma closestLoop_bound:
  "closestLoop lat1 lng1 centroids c minDist closest < c + length centroids \<or>
   closestLoop lat1 lng1 centroids c minDist closest = closest"
proof (induction centroids arbitrary: c minDist closest)
  case Nil
  show ?case by simp
next
  case (Cons cen rest)
  let ?d = "calculateHaversineDistance lat1 lng1 (centroid_lat cen) (centroid_lng cen)"
  show ?case
  proof (cases "lt_minDist ?d minDist")
    case True
    with Cons [of "Suc c" "Some ?d" c] show ?thesis by (auto simp: Let_def)
  next
    case False
    with Cons [of "Suc c" minDist closest] show ?thesis by (auto simp: Let_def)
  qed
qed

lemma assignAll_in_range:
  assumes "centroids \<noteq> []" "a \<in> set (assignAll centroids validLocations)"
  shows "a < length centroids"
proof -
  from assms(2) have
    "a \<in> (\<lambda>loc. closestLoop (num (loc_lat loc)) (num (loc_lng loc)) centroids 0 None 0) `
           set validLocations"
    by (simp add: assignAll_def)
  then obtain loc :: Location where
    "a = closestLoop (num (loc_lat loc)) (num (loc_lng loc)) centroids 0 None 0"
    by blast
  with closestLoop_bound [of "num (loc_lat loc)" "num (loc_lng loc)" centroids 0 None 0] assms(1)
  show ?thesis by auto
qed

lemma length_assignAll: "length (assignAll centroids validLocations) = length validLocations"
  by (simp add: assignAll_def)

lemma length_recompute: "length (recompute newCentroids cs centroids) = length centroids"
  by (induction cs arbitrary: centroids) auto

lemma length_updateCentroids:
  "length (updateCentroids k centroids assignments validLocations) = length centroids"
  by (simp add: updateCentroids_def Let_def length_recompute)

lemma length_initialCentroids: "length (initialCentroids validLocations k) = k"
  by (simp add: initialCentroids_def Let_def)

lemma refine_in_range:
  assumes "length centroids = k" "0 < k"
    "\<forall>a \<in> set assignments. a < k" "length assignments = length validLocations"
  shows "(\<forall>a \<in> set (refine m k validLocations centroids assignments). a < k) \<and>
         length (refine m k validLocations centroids assignments) = length validLocations"
  using assms
proof (induction m arbitrary: centroids assignments)
  case 0
  then show ?case by simp
next
  case (Suc m)
  let ?new = "assignAll centroids validLocations"
  from Suc.prems have ne: "centroids \<noteq> []" by auto
  have new_lt: "\<forall>a \<in> set ?new. a < k"
    using assignAll_in_range [OF ne] Suc.prems(1) by blast
  have new_len: "length ?new = length validLocations" by (rule length_assignAll)
  have upd: "length (updateCentroids k centroids ?new validLocations) = k"
    using Suc.prems(1) by (simp add: length_updateCentroids)
  from Suc.IH [OF upd Suc.prems(2) new_lt new_len] new_lt new_len
  show ?case by (simp add: Let_def)
qed

lemma concat_list_update_append:
  assumes "a < length clusters"
  shows "mset (concat (clusters[a := clusters ! a @ [x]])) = mset (concat clusters) + {#x#}"
proof -
  have l: "clusters = take a clusters @ clusters ! a # drop (Suc a) clusters"
    using assms by (rule id_take_nth_drop)
  have u: "clusters[a := clusters ! a @ [x]] =
           take a clusters @ (clusters ! a @ [x]) # drop (Suc a) clusters"
    using assms by (rule upd_conv_take_nth_drop)
  have "mset (concat (take a clusters @ (clusters ! a @ [x]) # drop (Suc a) clusters)) =
        mset (concat (take a clusters @ clusters ! a # drop (Suc a) clusters)) + {#x#}"
    by simp
  with l u show ?thesis by metis
qed

lemma groupByCluster_partition:
  assumes "\<forall>a \<in> set assignments. a < length clusters" "length assignments = length locs"
  shows "mset (concat (groupByCluster clusters assignments locs)) =
           mset (concat clusters) + mset locs \<and>
         length (groupByCluster clusters assignments locs) = length clusters"
  using assms
proof (induction clusters assignments locs rule: groupByCluster.induct)
  case (1 clusters a assignments loc locs)
  from "1.prems" have a: "a < length clusters" by simp
  have "\<forall>b \<in> set assignments. b < length (clusters[a := clusters ! a @ [loc]])"
    using "1.prems" by simp
  moreover have "length assignments = length locs" using "1.prems" by simp
  ultimately have ih:
    "mset (concat (groupByCluster (clusters[a := clusters ! a @ [loc]]) assignments locs)) =
       mset (concat (clusters[a := clusters ! a @ [loc]])) + mset locs \<and>
     length (groupByCluster (clusters[a := clusters ! a @ [loc]]) assignments locs) =
       length (clusters[a := clusters ! a @ [loc]])"
    by (rule "1.IH")
  then show ?case using concat_list_update_append [OF a, of loc] by simp
qed simp_all

lemma concat_filter_nonempty: "concat (filter (\<lambda>cluster. 0 < length cluster) cs) = concat cs"
  by (induction cs) auto

lemma filter_nonempty_members:
  "cluster \<in> set (filter (\<lambda>cluster. 0 < length cluster) cs) \<Longrightarrow> cluster \<noteq> []"
  by auto

lemma kMeansClustering_singletons:
  "int (length (filter hasCoords locations)) \<le> k \<Longrightarrow>
   kMeansClustering locations k = map (\<lambda>loc. [loc]) (filter hasCoords locations)"
proof (cases "filter hasCoords locations = []")
  case True
  then show ?thesis by (simp add: kMeansClustering_def Let_def)
next
  case False
  assume le: "int (length (filter hasCoords locations)) \<le> k"
  from False have "0 < length (filter hasCoords locations)" by simp
  with le have "0 < k" by linarith
  with le False show ?thesis by (simp add: kMeansClustering_def Let_def)
qed

lemma kMeansClustering_refined:
  assumes "0 < k" "k < int (length (filter hasCoords locations))"
  shows "kMeansClustering locations k =
     filter (\<lambda>cluster. 0 < length cluster)
       (groupByCluster (replicate (nat k) [])
          (refine 20 (nat k) (filter hasCoords locations)
             (initialCentroids (filter hasCoords locations) (nat k))
             (replicate (length (filter hasCoords locations)) 0))
          (filter hasCoords locations))"
  using assms by (auto simp: kMeansClustering_def Let_def)

lemma kMeansClustering_partition:
  assumes "1 \<le> k"
  shows "mset (concat (kMeansClustering locations k)) = mset (filter hasCoords locations)"
    and "\<forall>cluster \<in> set (kMeansClustering locations k). cluster \<noteq> []"
    and "int (length (kMeansClustering locations k)) \<le> k"
proof -
  let ?v = "filter hasCoords locations"
  let ?as = "refine 20 (nat k) ?v (initialCentroids ?v (nat k)) (replicate (length ?v) 0)"
  let ?g = "groupByCluster (replicate (nat k) []) ?as ?v"
  have "mset (concat (kMeansClustering locations k)) = mset ?v \<and>
        (\<forall>cluster \<in> set (kMeansClustering locations k). cluster \<noteq> []) \<and>
        int (length (kMeansClustering locations k)) \<le> k"
  proof (cases "int (length ?v) \<le> k")
    case True
    have c: "concat (map (\<lambda>loc. [loc]) ?v) = ?v" by (induction ?v) auto
    show ?thesis
      unfolding kMeansClustering_singletons [OF True] using True c by auto
  next
    case False
    then have lt: "k < int (length ?v)" by simp
    from assms have k0: "0 < k" by simp
    have kn: "0 < nat k" using k0 by simp
    have r: "(\<forall>a \<in> set ?as. a < nat k) \<and> length ?as = length ?v"
      by (rule refine_in_range) (use kn in \<open>simp_all add: length_initialCentroids\<close>)
    have g: "mset (concat ?g) = mset (concat (replicate (nat k) [])) + mset ?v \<and>
             length ?g = length (replicate (nat k) ([] :: Location list))"
      by (rule groupByCluster_partition) (use r in simp_all)
    have e: "concat (replicate n ([] :: Location list)) = []" for n by (induction n) auto
    have len: "length (filter (\<lambda>cluster. 0 < length cluster) ?g) \<le> nat k"
      using g length_filter_le [of "\<lambda>cluster. 0 < length cluster" ?g] by simp
    have eq: "kMeansClustering locations k = filter (\<lambda>cluster. 0 < length cluster) ?g"
      by (rule kMeansClustering_refined [OF k0 lt])
    have p1: "mset (concat (kMeansClustering locations k)) = mset ?v"
      unfolding eq concat_filter_nonempty using g e by simp
    have p2: "\<forall>cluster \<in> set (kMeansClustering locations k). cluster \<noteq> []"
      unfolding eq using filter_nonempty_members by blast
    have p3: "int (length (kMeansClustering locations k)) \<le> k"
      unfolding eq using len k0 by linarith
    from p1 p2 p3 show ?thesis by blast
  qed
  then show "mset (concat (kMeansClustering locations k)) = mset ?v"
    and "\<forall>cluster \<in> set (kMeansClustering locations k). cluster \<noteq> []"
    and "int (length (kMeansClustering locations k)) \<le> k" by blast+
qed

section \<open>Properties of the centroid update\<close>

lemma membersOf_Cons:
  "membersOf c (a # assignments) (loc # locs) =
     (if a = c then loc # membersOf c assignments locs else membersOf c assignments locs)"
  by (simp add: membersOf_def)

lemma membersOf_Nil: "membersOf c [] locs = []" "membersOf c assignments [] = []"
  by (simp_all add: membersOf_def)

lemma sumMembers_nth:
  assumes "\<forall>a \<in> set assignments. a < length newCentroids" "c < length newCentroids"
  shows "length (sumMembers newCentroids assignments locs) = length newCentroids \<and>
         sumMembers newCentroids assignments locs ! c =
           \<lparr>sum_lat = sum_lat (newCentroids ! c) +
              sum_list (map (\<lambda>loc. num (loc_lat loc)) (membersOf c assignments locs)),
            sum_lng = sum_lng (newCentroids ! c) +
              sum_list (map (\<lambda>loc. num (loc_lng loc)) (membersOf c assignments locs)),
            sum_count = sum_count (newCentroids ! c) + length (membersOf c assignments locs)\<rparr>"
  using assms
proof (induction newCentroids assignments locs rule: sumMembers.induct)
  case (1 newCentroids cluster assignments loc locs)
  let ?nc = "newCentroids[cluster :=
          \<lparr>sum_lat = sum_lat (newCentroids ! cluster) + num (loc_lat loc),
           sum_lng = sum_lng (newCentroids ! cluster) + num (loc_lng loc),
           sum_count = Suc (sum_count (newCentroids ! cluster))\<rparr>]"
  have a: "\<forall>a \<in> set assignments. a < length ?nc" using "1.prems" by simp
  have c: "c < length ?nc" using "1.prems" by simp
  have cl: "cluster < length newCentroids" using "1.prems" by simp
  note ih = "1.IH" [OF a c]
  show ?case
  proof (cases "cluster = c")
    case True
    with ih cl show ?thesis by (simp add: membersOf_Cons)
  next
    case False
    with ih cl show ?thesis by (simp add: membersOf_Cons)
  qed
qed (simp_all add: membersOf_Nil)

lemma recompute_nth:
  assumes "c < length centroids" "distinct cs"
  shows "recompute newCentroids cs centroids ! c =
     (if c \<in> set cs \<and> 0 < sum_count (newCentroids ! c)
      then \<lparr>centroid_lat = sum_lat (newCentroids ! c) / real (sum_count (newCentroids ! c)),
            centroid_lng = sum_lng (newCentroids ! c) / real (sum_count (newCentroids ! c))\<rparr>
      else centroids ! c)"
  using assms
proof (induction cs arbitrary: centroids)
  case Nil
  show ?case by simp
next
  case (Cons x cs)
  show ?case
  proof (cases "0 < sum_count (newCentroids ! x)")
    case True
    let ?cen = "centroids[x :=
               \<lparr>centroid_lat = sum_lat (newCentroids ! x) / real (sum_count (newCentroids ! x)),
                centroid_lng = sum_lng (newCentroids ! x) / real (sum_count (newCentroids ! x))\<rparr>]"
    have "c < length ?cen" using Cons.prems by simp
    moreover have "distinct cs" using Cons.prems by simp
    ultimately have ih: "recompute newCentroids cs ?cen ! c =
     (if c \<in> set cs \<and> 0 < sum_count (newCentroids ! c)
      then \<lparr>centroid_lat = sum_lat (newCentroids ! c) / real (sum_count (newCentroids ! c)),
            centroid_lng = sum_lng (newCentroids ! c) / real (sum_count (newCentroids ! c))\<rparr>
      else ?cen ! c)" by (rule Cons.IH)
    show ?thesis
    proof (cases "x = c")
      case True
      with ih \<open>0 < sum_count (newCentroids ! x)\<close> Cons.prems show ?thesis by simp
    next
      case False
      with ih \<open>0 < sum_count (newCentroids ! x)\<close> Cons.prems show ?thesis by simp
    qed
  next
    case False
    have "distinct cs" using Cons.prems by simp
    from Cons.IH [OF Cons.prems(1) this] False show ?thesis by auto
  qed
qed

lemma updateCentroids_nth:
  assumes "length centroids = k" "\<forall>a \<in> set assignments. a < k" "c < k"
  shows "updateCentroids k centroids assignments validLocations ! c =
     (if membersOf c assignments validLocations = [] then centroids ! c
      else meanOf (membersOf c assignments validLocations))"
proof -
  let ?z = "\<lparr>sum_lat = 0, sum_lng = 0, sum_count = 0\<rparr>"
  let ?nc = "sumMembers (replicate k ?z) assignments validLocations"
  have s: "?nc ! c =
           \<lparr>sum_lat = sum_lat (replicate k ?z ! c) +
              sum_list (map (\<lambda>loc. num (loc_lat loc)) (membersOf c assignments validLocations)),
            sum_lng = sum_lng (replicate k ?z ! c) +
              sum_list (map (\<lambda>loc. num (loc_lng loc)) (membersOf c assignments validLocations)),
            sum_count = sum_count (replicate k ?z ! c) +
              length (membersOf c assignments validLocations)\<rparr>"
    using sumMembers_nth [of assignments "replicate k ?z" c validLocations] assms by simp
  have r: "recompute ?nc [0..<k] centroids ! c =
     (if c \<in> set [0..<k] \<and> 0 < sum_count (?nc ! c)
      then \<lparr>centroid_lat = sum_lat (?nc ! c) / real (sum_count (?nc ! c)),
            centroid_lng = sum_lng (?nc ! c) / real (sum_count (?nc ! c))\<rparr>
      else centroids ! c)"
    by (rule recompute_nth) (use assms in simp_all)
  show ?thesis
    unfolding updateCentroids_def Let_def r s using assms(3)
    by (simp add: meanOf_def)
qed

text \<open>
  Claim C10. In an iteration of the refinement (the centroids \<open>centroids\<close>, one per
  cluster index below \<open>k\<close>, and \<open>newAssignments\<close> the reassignment of every location to
  its closest centroid), the centroid of a cluster that has no member after the
  reassignment keeps the coordinates it had before the iteration; a centroid with at
  least one member becomes the mean of its members, a division by a positive count; and
  the list of centroids keeps its length \<open>k\<close>, so the next iteration starts from \<open>k\<close>
  centroids again.
\<close>

theorem updateCentroids_keeps_empty:
  assumes "length centroids = k" "c < k"
  shows "let newAssignments = assignAll centroids validLocations;
             updated = updateCentroids k centroids newAssignments validLocations;
             members = membersOf c newAssignments validLocations
         in length updated = k \<and>
            (members = [] \<longrightarrow> updated ! c = centroids ! c) \<and>
            (members \<noteq> [] \<longrightarrow> 0 < length members \<and> updated ! c = meanOf members)"
proof -
  from assms have ne: "centroids \<noteq> []" by auto
  have lt: "\<forall>a \<in> set (assignAll centroids validLocations). a < k"
    using assignAll_in_range [OF ne] assms(1) by blast
  show ?thesis
    using updateCentroids_nth [OF assms(1) lt assms(2)] assms(1)
    by (simp add: Let_def length_updateCentroids)
qed

section \<open>Properties of the sequencer\<close>

lemma walk_Nil [simp]: "walk result [] = result"
  by (subst walk.simps) simp

text \<open>
  The invariant of the inner loop: \<open>pre\<close> is the part of \<open>remaining\<close> already compared,
  \<open>nearestIdx\<close> the earliest index of a minimal distance in it.
\<close>

lemma nearestLoop_first_min:
  fixes current :: Location
  assumes "pre @ rest \<noteq> []"
    and "case nearestDist of
           None \<Rightarrow> pre = []
         | Some m \<Rightarrow> nearestIdx < length pre \<and>
             m = distanceBetween current ((pre @ rest) ! nearestIdx) \<and>
             (\<forall>t < length pre. m \<le> distanceBetween current ((pre @ rest) ! t)) \<and>
             (\<forall>t < nearestIdx. m < distanceBetween current ((pre @ rest) ! t))"
  shows "let j = nearestLoop current rest (length pre) nearestIdx nearestDist
         in j < length (pre @ rest) \<and>
            (\<forall>i < length (pre @ rest).
               distanceBetween current ((pre @ rest) ! j) \<le>
               distanceBetween current ((pre @ rest) ! i)) \<and>
            (\<forall>i < j.
               distanceBetween current ((pre @ rest) ! j) <
               distanceBetween current ((pre @ rest) ! i))"
  using assms
proof (induction rest arbitrary: pre nearestIdx nearestDist)
  case Nil
  then show ?case by (cases nearestDist) (auto simp: Let_def)
next
  case (Cons r rest)
  let ?d = "distanceBetween current r"
  have full: "(pre @ [r]) @ rest = pre @ r # rest" by simp
  have r_at: "(pre @ r # rest) ! length pre = r" by simp
  show ?case
  proof (cases "lt_minDist ?d nearestDist")
    case True
    have inv: "case Some ?d of
           None \<Rightarrow> pre @ [r] = []
         | Some m \<Rightarrow> length pre < length (pre @ [r]) \<and>
             m = distanceBetween current (((pre @ [r]) @ rest) ! length pre) \<and>
             (\<forall>t < length (pre @ [r]). m \<le> distanceBetween current (((pre @ [r]) @ rest) ! t)) \<and>
             (\<forall>t < length pre. m < distanceBetween current (((pre @ [r]) @ rest) ! t))"
    proof (cases nearestDist)
      case None
      with Cons.prems have "pre = []" by simp
      then show ?thesis by simp
    next
      case (Some m)
      with True have lt: "?d < m" by (simp add: lt_minDist_def)
      from Some Cons.prems have m: "\<forall>t < length pre. m \<le> distanceBetween current ((pre @ r # rest) ! t)"
        by auto
      have "\<forall>t < length pre. ?d < distanceBetween current ((pre @ r # rest) ! t)"
        using m lt by fastforce
      moreover have "\<forall>t < Suc (length pre). ?d \<le> distanceBetween current ((pre @ r # rest) ! t)"
      proof (intro allI impI)
        fix t assume "t < Suc (length pre)"
        then consider "t < length pre" | "t = length pre" by linarith
        then show "?d \<le> distanceBetween current ((pre @ r # rest) ! t)"
        proof cases
          case 1
          with m lt show ?thesis by fastforce
        next
          case 2
          then show ?thesis by simp
        qed
      qed
      ultimately show ?thesis by simp
    qed
    have ne: "(pre @ [r]) @ rest \<noteq> []" by simp
    from Cons.IH [OF ne inv] True show ?thesis by (simp add: Let_def)
  next
    case False
    then obtain m where Some: "nearestDist = Some m" and ge: "m \<le> ?d"
      by (cases nearestDist) (auto simp: lt_minDist_def)
    from Some Cons.prems have p:
      "nearestIdx < length pre"
      "m = distanceBetween current ((pre @ r # rest) ! nearestIdx)"
      "\<forall>t < length pre. m \<le> distanceBetween current ((pre @ r # rest) ! t)"
      "\<forall>t < nearestIdx. m < distanceBetween current ((pre @ r # rest) ! t)"
      by auto
    have all: "\<forall>t < Suc (length pre). m \<le> distanceBetween current ((pre @ r # rest) ! t)"
    proof (intro allI impI)
      fix t assume "t < Suc (length pre)"
      then consider "t < length pre" | "t = length pre" by linarith
      then show "m \<le> distanceBetween current ((pre @ r # rest) ! t)"
      proof cases
        case 1
        with p(3) show ?thesis by simp
      next
        case 2
        with ge show ?thesis by simp
      qed
    qed
    have inv: "case nearestDist of
           None \<Rightarrow> pre @ [r] = []
         | Some m \<Rightarrow> nearestIdx < length (pre @ [r]) \<and>
             m = distanceBetween current (((pre @ [r]) @ rest) ! nearestIdx) \<and>
             (\<forall>t < length (pre @ [r]). m \<le> distanceBetween current (((pre @ [r]) @ rest) ! t)) \<and>
             (\<forall>t < nearestIdx. m < distanceBetween current (((pre @ [r]) @ rest) ! t))"
      using Some p all by simp
    have ne: "(pre @ [r]) @ rest \<noteq> []" by simp
    from Cons.IH [OF ne inv] False show ?thesis by (simp add: Let_def)
  qed
qed

lemma nearestLoop_selects:
  fixes current :: Location
  assumes "remaining \<noteq> []"
  shows "nearestLoop current remaining 0 0 None < length remaining"
    and "\<forall>i < length remaining.
           distanceBetween current (remaining ! nearestLoop current remaining 0 0 None) \<le>
           distanceBetween current (remaining ! i)"
    and "\<forall>i < nearestLoop current remaining 0 0 None.
           distanceBetween current (remaining ! nearestLoop current remaining 0 0 None) <
           distanceBetween current (remaining ! i)"
  using nearestLoop_first_min [where pre = "[]" and rest = remaining and nearestDist = None
      and nearestIdx = 0 and current = current] assms
  by (simp_all add: Let_def)

lemma mset_spliceOut:
  "j < length xs \<Longrightarrow> mset (spliceOut j xs) + {#xs ! j#} = mset xs"
proof -
  assume j: "j < length xs"
  have "xs = take j xs @ xs ! j # drop (Suc j) xs" using j by (rule id_take_nth_drop)
  then have "mset xs = mset (take j xs @ xs ! j # drop (Suc j) xs)" by simp
  then show ?thesis by (simp add: spliceOut_def)
qed

lemma walk_greedy:
  "result \<noteq> [] \<Longrightarrow>
   \<exists>rest. walk result remaining = result @ rest \<and> greedy_walk (last result) remaining rest \<and>
          mset rest = mset remaining"
proof (induction result remaining rule: walk.induct)
  case (1 result remaining)
  show ?case
  proof (cases "remaining = []")
    case True
    then show ?thesis by (simp add: greedy_done)
  next
    case False
    let ?j = "nearestLoop (last result) remaining 0 0 None"
    note sel = nearestLoop_selects [OF False, of "last result"]
    have ne: "result @ [remaining ! ?j] \<noteq> []" by simp
    from "1.IH" [OF False refl refl ne]
    obtain rest where r:
      "walk (result @ [remaining ! ?j]) (spliceOut ?j remaining) =
         (result @ [remaining ! ?j]) @ rest"
      "greedy_walk (last (result @ [remaining ! ?j])) (spliceOut ?j remaining) rest"
      "mset rest = mset (spliceOut ?j remaining)"
      by blast
    have w: "walk result remaining = walk (result @ [remaining ! ?j]) (spliceOut ?j remaining)"
      using False by (subst walk.simps) (simp add: Let_def)
    have g: "greedy_walk (last result) remaining (remaining ! ?j # rest)"
      using sel r(2) by (intro greedy_step) simp_all
    have m: "mset (remaining ! ?j # rest) = mset remaining"
      using r(3) mset_spliceOut [OF sel(1)] by simp
    from w r(1) g m show ?thesis by (intro exI [of _ "remaining ! ?j # rest"]) simp
  qed
qed

lemma nearestNeighborOrdering_walk:
  "mset (nearestNeighborOrdering locations) = mset locations \<and>
   (length locations \<le> 1 \<longrightarrow> nearestNeighborOrdering locations = locations) \<and>
   (locations \<noteq> [] \<longrightarrow>
      (\<exists>rest. nearestNeighborOrdering locations = hd locations # rest \<and>
              greedy_walk (hd locations) (tl locations) rest))"
proof (cases locations)
  case Nil
  then show ?thesis by (simp add: nearestNeighborOrdering_def)
next
  case (Cons x xs)
  from walk_greedy [of "[x]" xs] obtain rest where r:
    "walk [x] xs = [x] @ rest" "greedy_walk (last [x]) xs rest" "mset rest = mset xs"
    by auto
  show ?thesis
  proof (cases xs)
    case Nil
    with Cons show ?thesis by (simp add: nearestNeighborOrdering_def greedy_done)
  next
    case (Cons y ys)
    with \<open>locations = x # xs\<close> r show ?thesis
      by (simp add: nearestNeighborOrdering_def)
  qed
qed


section \<open>Examples for the distance estimator, the clusterer and the sequencer\<close>

lemma haversine_a_same: "haversine_a la lo la lo = 0"
  by (simp add: haversine_a_def)

lemma calculateHaversineDistance_same: "calculateHaversineDistance la lo la lo = 0"
  by (simp add: calculateHaversineDistance_def haversine_a_same atan2_def)


text \<open>
  Claim C3. For every list of locations and every \<open>k \<ge> 1\<close>, the clusters that
  \<open>kMeansClustering\<close> returns hold, taken together, every location that has coordinates
  exactly as often as the input does (none left out, none repeated); no returned cluster
  is empty; and there are at most \<open>k\<close> of them.
\<close>

theorem kMeansClustering_partitions:
  assumes "1 \<le> k"
  shows "mset (concat (kMeansClustering locations k)) = mset (filter hasCoords locations) \<and>
         (\<forall>cluster \<in> set (kMeansClustering locations k). cluster \<noteq> []) \<and>
         int (length (kMeansClustering locations k)) \<le> k"
  using kMeansClustering_partition [OF assms] by blast

theorem kMeansClustering_partitions_witness:
  "mset (concat (kMeansClustering
      [exampleLocation ''A'' (Some 39) (Some (- 76)), exampleLocation ''B'' (Some 40) (Some (- 75)),
       exampleLocation ''C'' (Some 39) (Some (- 77))] 2)) =
   mset [exampleLocation ''A'' (Some 39) (Some (- 76)), exampleLocation ''B'' (Some 40) (Some (- 75)),
       exampleLocation ''C'' (Some 39) (Some (- 77))] \<and>
   [] \<notin> set (kMeansClustering
      [exampleLocation ''A'' (Some 39) (Some (- 76)), exampleLocation ''B'' (Some 40) (Some (- 75)),
       exampleLocation ''C'' (Some 39) (Some (- 77))] 2) \<and>
   length (kMeansClustering
      [exampleLocation ''A'' (Some 39) (Some (- 76)), exampleLocation ''B'' (Some 40) (Some (- 75)),
       exampleLocation ''C'' (Some 39) (Some (- 77))] 2) \<le> 2"
proof -
  have k: "(1::int) \<le> 2" by simp
  have f: "filter hasCoords
      [exampleLocation ''A'' (Some 39) (Some (- 76)), exampleLocation ''B'' (Some 40) (Some (- 75)),
       exampleLocation ''C'' (Some 39) (Some (- 77))] =
      [exampleLocation ''A'' (Some 39) (Some (- 76)), exampleLocation ''B'' (Some 40) (Some (- 75)),
       exampleLocation ''C'' (Some 39) (Some (- 77))]"
    by (simp add: hasCoords_def exampleLocation_def)
  show ?thesis
    using kMeansClustering_partitions [OF k,
      of "[exampleLocation ''A'' (Some 39) (Some (- 76)), exampleLocation ''B'' (Some 40) (Some (- 75)),
       exampleLocation ''C'' (Some 39) (Some (- 77))]"]
    unfolding f by auto
qed

theorem updateCentroids_keeps_empty_witness:
  "let centroids = [\<lparr>centroid_lat = 39, centroid_lng = - 76\<rparr>,
                    \<lparr>centroid_lat = 39, centroid_lng = - 76\<rparr>];
       validLocations = [exampleLocation ''A'' (Some 39) (Some (- 76))];
       newAssignments = assignAll centroids validLocations;
       updated = updateCentroids 2 centroids newAssignments validLocations
   in newAssignments = [0] \<and> membersOf 1 newAssignments validLocations = [] \<and>
      length updated = 2 \<and> updated ! 1 = centroids ! 1 \<and>
      updated ! 0 = meanOf validLocations"
proof -
  let ?cs = "[\<lparr>centroid_lat = 39, centroid_lng = - 76\<rparr>, \<lparr>centroid_lat = 39, centroid_lng = - 76\<rparr>]"
  let ?v = "[exampleLocation ''A'' (Some 39) (Some (- 76))]"
  have a: "assignAll ?cs ?v = [0]"
    by (simp add: assignAll_def exampleLocation_def num_def calculateHaversineDistance_same
        lt_minDist_def)
  have m1: "membersOf 1 [0] ?v = []" by (simp add: membersOf_def)
  have m0: "membersOf 0 [0] ?v = ?v" by (simp add: membersOf_def)
  have l: "length ?cs = 2" by simp
  from updateCentroids_keeps_empty [OF l, of 1 ?v] have one:
    "length (updateCentroids 2 ?cs [0] ?v) = 2 \<and> updateCentroids 2 ?cs [0] ?v ! 1 = ?cs ! 1"
    unfolding Let_def a m1 by simp
  from updateCentroids_keeps_empty [OF l, of 0 ?v] have zero:
    "updateCentroids 2 ?cs [0] ?v ! 0 = meanOf ?v"
    unfolding Let_def a m0 by simp
  show ?thesis unfolding Let_def a m1 using one zero by simp
qed


section \<open>Properties of the map link\<close>

lemma join_slash:
  "xs \<noteq> [] \<Longrightarrow> join ''/'' xs = hd xs @ concat (map (\<lambda>x. ''/'' @ x) (tl xs))"
  by (induction "''/''" xs rule: join.induct) auto

lemma addressText_present: "address stop = Some a \<Longrightarrow> addressText stop = a"
  by (simp add: addressText_def)

lemma generateGoogleMapsUrl_directions:
  "stops \<noteq> [] \<Longrightarrow> generateGoogleMapsUrl stops = directionsUrl stops"
  by (simp add: generateGoogleMapsUrl_def directionsUrl_def Let_def join_slash hd_map map_tl
      comp_def)

section \<open>Properties of the optimizer adapter\<close>







section \<open>Properties of route assembly\<close>

lemma map_index_enumerate:
  "map (\<lambda>(i, x). g i) (enumerate k xs) = map g [k..<k + length xs]"
proof (induction xs arbitrary: k)
  case Nil
  show ?case by simp
next
  case (Cons x xs)
  have e: "k + length (x # xs) = Suc k + length xs" by simp
  have h: "[k..<Suc k + length xs] = k # [Suc k..<Suc k + length xs]"
    by (rule upt_conv_Cons) simp
  show ?case unfolding e h using Cons [of "Suc k"] by (simp del: upt_Suc)
qed

lemma upt_from_two: "map (\<lambda>i. i + 2) [0..<0 + n] = [2..<n + 2]"
  using map_add_upt [of 2 n] by simp

lemma upt_bookends: "(1::nat) # [2..<n + 2] @ [n + 2] = [1..<n + 2 + 1]"
proof -
  have a: "[2..<Suc (n + 2)] = [2..<n + 2] @ [n + 2]" by (rule upt_Suc_append) simp
  have b: "[1..<Suc (n + 2)] = 1 # [Suc 1..<Suc (n + 2)]" by (rule upt_conv_Cons) simp
  have c: "Suc 1 = 2" by simp
  have d: "n + 2 + 1 = Suc (n + 2)" by simp
  show ?thesis unfolding d b c a by (rule refl)
qed

lemma length_mkDeliveryStops [simp]: "length (mkDeliveryStops env route locs) = length locs"
  by (simp add: mkDeliveryStops_def)

lemma length_renumber [simp]: "length (renumber ds) = length ds"
  by (simp add: renumber_def)

lemma sequence_mkDeliveryStops:
  "map sequence (mkDeliveryStops env route locs) = [2..<length locs + 2]"
proof -
  have "map sequence (mkDeliveryStops env route locs) =
        map (\<lambda>(index, loc). index + 2) (enumerate 0 locs)"
    by (simp add: mkDeliveryStops_def deliveryStop_def case_prod_beta comp_def)
  also have "\<dots> = map (\<lambda>i. i + 2) [0..<0 + length locs]" by (rule map_index_enumerate)
  also have "\<dots> = [2..<length locs + 2]" by (rule upt_from_two)
  finally show ?thesis .
qed

lemma sequence_renumber: "map sequence (renumber ds) = [2..<length ds + 2]"
proof -
  have "map sequence (renumber ds) = map (\<lambda>(index, stop). index + 2) (enumerate 0 ds)"
    by (simp add: renumber_def case_prod_beta comp_def)
  also have "\<dots> = map (\<lambda>i. i + 2) [0..<0 + length ds]" by (rule map_index_enumerate)
  also have "\<dots> = [2..<length ds + 2]" by (rule upt_from_two)
  finally show ?thesis .
qed

lemma sliceInner_bookends [simp]: "sliceInner ([a] @ mid @ [b]) = mid"
  by (simp add: sliceInner_def butlast_append)

lemma sliceInner_map: "sliceInner (map f xs) = map f (sliceInner xs)"
  by (simp add: sliceInner_def map_butlast map_tl)

text \<open>The shape of a final stop list whose delivery stops are numbered from 2.\<close>

lemma finalStops_shape:
  assumes "map sequence ds = [2..<length ds + 2]"
  shows "map sequence (finalStops env route n ds) = [1..<length (finalStops env route n ds) + 1]"
    and "length (finalStops env route n ds) = length ds + 2"
    and "sliceInner (finalStops env route n ds) = ds"
    and "hd (finalStops env route n ds) =
           createWarehouseStop env (randomUUID env route (n + 2)) 1 True"
    and "last (finalStops env route n ds) =
           createWarehouseStop env (randomUUID env route (n + 3)) (length ds + 2) False"
proof -
  have len: "length (finalStops env route n ds) = length ds + 2"
    by (simp add: finalStops_def Let_def)
  have "map sequence (finalStops env route n ds) = 1 # [2..<length ds + 2] @ [length ds + 2]"
    using assms by (simp add: finalStops_def Let_def createWarehouseStop_def)
  then show "map sequence (finalStops env route n ds) =
             [1..<length (finalStops env route n ds) + 1]"
    unfolding len upt_bookends .
  show "length (finalStops env route n ds) = length ds + 2"
    by (simp add: finalStops_def Let_def)
  show "sliceInner (finalStops env route n ds) = ds"
    unfolding finalStops_def Let_def by (rule sliceInner_bookends)
  show "hd (finalStops env route n ds) =
           createWarehouseStop env (randomUUID env route (n + 2)) 1 True"
    by (simp add: finalStops_def Let_def)
  show "last (finalStops env route n ds) =
           createWarehouseStop env (randomUUID env route (n + 3)) (length ds + 2) False"
    by (simp add: finalStops_def Let_def)
qed

lemma sequence_adoptedStops:
  "map sequence (adoptedStops googleResult (mkDeliveryStops env route locs)) =
   [2..<length (adoptedStops googleResult (mkDeliveryStops env route locs)) + 2]"
  by (cases googleResult) (simp_all add: adoptedStops_def sequence_renumber sequence_mkDeliveryStops)

lemma routeForCluster_stops:
  "stopsJson (routeForCluster env day scheduledDate route cluster) =
     finalStops env route (length (nearestNeighborOrdering cluster))
       (adoptedStops
          (optimizeRouteWithGoogle env route
             (fullRouteForOptimization env route (nearestNeighborOrdering cluster)))
          (mkDeliveryStops env route (nearestNeighborOrdering cluster)))"
  "stopCount (routeForCluster env day scheduledDate route cluster) =
       length (stopsJson (routeForCluster env day scheduledDate route cluster))"
  "routeLink (routeForCluster env day scheduledDate route cluster) =
       generateGoogleMapsUrl (stopsJson (routeForCluster env day scheduledDate route cluster))"
  by (simp_all add: routeForCluster_def Let_def draftRoute_def adoptedStops_def)

lemma routeForBlock_stops:
  "stopsJson (routeForBlock env day scheduledDate route routeLocations) =
     finalStops env route (length routeLocations)
       (adoptedStops (blockResult env route routeLocations)
          (mkDeliveryStops env route routeLocations))"
  "stopCount (routeForBlock env day scheduledDate route routeLocations) =
       length (stopsJson (routeForBlock env day scheduledDate route routeLocations))"
  "routeLink (routeForBlock env day scheduledDate route routeLocations) =
       generateGoogleMapsUrl (stopsJson (routeForBlock env day scheduledDate route routeLocations))"
  by (simp_all add: routeForBlock_def Let_def draftRoute_def adoptedStops_def blockResult_def
      stopsHaveCoords_def createWarehouseStop_def)


lemma calculateRouteDistance_finalStops_missing:
  assumes "\<not> list_all (\<lambda>s. lat s \<noteq> None \<and> lng s \<noteq> None) ds"
  shows "calculateRouteDistance (finalStops env route n ds) = None"
proof -
  from assms obtain s where s: "s \<in> set ds" "\<not> located s"
    by (auto simp: list_all_iff located_def)
  then have "s \<in> set (finalStops env route n ds)" by (simp add: finalStops_def Let_def)
  moreover have "2 \<le> length (finalStops env route n ds)" by (simp add: finalStops_def Let_def)
  ultimately show ?thesis using s(2) by (intro calculateRouteDistance_missing) auto
qed

lemma routeForBlock_metrics:
  fixes env day scheduledDate route routeLocations
  defines "r \<equiv> routeForBlock env day scheduledDate route routeLocations"
    and "g \<equiv> blockResult env route routeLocations"
  shows "g = None \<Longrightarrow> totalDistance r = calculateRouteDistance (stopsJson r)"
    and "g = None \<Longrightarrow>
         estimatedTime r = Some (heuristicTime (totalDistance r) (length (stopsJson r) - 2))"
    and "g = Some res \<Longrightarrow> totalDistance r = Some (totalDistanceKm res)"
    and "g = Some res \<Longrightarrow> estimatedTime r = Some (estimatedTimeMinutes res)"
    and "\<not> stopsHaveCoords env route routeLocations \<Longrightarrow>
         totalDistance r = None \<and> estimatedTime r = Some (int (length routeLocations) * 15)"
proof -
  let ?ds = "mkDeliveryStops env route routeLocations"
  show "g = Some res \<Longrightarrow> totalDistance r = Some (totalDistanceKm res)"
    unfolding r_def g_def
    by (auto simp: routeForBlock_def Let_def draftRoute_def blockResult_def stopsHaveCoords_def
        createWarehouseStop_def split: if_splits)
  show "g = Some res \<Longrightarrow> estimatedTime r = Some (estimatedTimeMinutes res)"
    unfolding r_def g_def
    by (auto simp: routeForBlock_def Let_def draftRoute_def blockResult_def stopsHaveCoords_def
        createWarehouseStop_def split: if_splits)
  show no: "\<not> stopsHaveCoords env route routeLocations \<Longrightarrow>
         totalDistance r = None \<and> estimatedTime r = Some (int (length routeLocations) * 15)"
    unfolding r_def
    by (simp add: routeForBlock_def Let_def draftRoute_def stopsHaveCoords_def)
  assume g: "g = None"
  show "totalDistance r = calculateRouteDistance (stopsJson r)"
  proof (cases "stopsHaveCoords env route routeLocations")
    case True
    with g show ?thesis
      unfolding r_def g_def
      by (simp add: routeForBlock_def Let_def draftRoute_def blockResult_def stopsHaveCoords_def
          createWarehouseStop_def)
  next
    case False
    then have "calculateRouteDistance (finalStops env route (length routeLocations) ?ds) = None"
      unfolding stopsHaveCoords_def by (rule calculateRouteDistance_finalStops_missing)
    moreover have "stopsJson r = finalStops env route (length routeLocations) ?ds"
      using False unfolding r_def
      by (simp add: routeForBlock_stops adoptedStops_def blockResult_def)
    ultimately show ?thesis using no [OF False] by simp
  qed
  show "estimatedTime r = Some (heuristicTime (totalDistance r) (length (stopsJson r) - 2))"
  proof (cases "stopsHaveCoords env route routeLocations")
    case True
    with g show ?thesis
      unfolding r_def g_def
      by (simp add: routeForBlock_def Let_def draftRoute_def blockResult_def stopsHaveCoords_def
          createWarehouseStop_def finalStops_def)
  next
    case False
    have "stopsJson r = finalStops env route (length routeLocations) ?ds"
      using False unfolding r_def
      by (simp add: routeForBlock_stops adoptedStops_def blockResult_def)
    then have "length (stopsJson r) - 2 = length routeLocations"
      by (simp add: finalStops_def Let_def)
    then show ?thesis using no [OF False] by (simp add: heuristicTime_def)
  qed
qed

text \<open>Where the routes of a generation come from.\<close>

lemma kMeansClustering_subset:
  assumes "cluster \<in> set (kMeansClustering locations k)"
  shows "set cluster \<subseteq> set locations"
proof (cases "1 \<le> k")
  case True
  have "set cluster \<subseteq> set (concat (kMeansClustering locations k))" using assms by auto
  also have "\<dots> = set_mset (mset (concat (kMeansClustering locations k)))" by simp
  also have "\<dots> = set_mset (mset (filter hasCoords locations))"
    using kMeansClustering_partition(1) [OF True] by simp
  also have "\<dots> \<subseteq> set locations" by auto
  finally show ?thesis .
next
  case False
  then have "kMeansClustering locations k = []" by (simp add: kMeansClustering_def Let_def)
  with assms show ?thesis by simp
qed

lemma roundRobin_member:
  "r \<in> set (roundRobin env day scheduledDate dayLocations driverCount stopsPerDriver i) \<Longrightarrow>
   \<exists>j block. r = routeForBlock env day scheduledDate j block \<and> set block \<subseteq> set dayLocations"
proof (induction env day scheduledDate dayLocations driverCount stopsPerDriver i
       rule: roundRobin.induct)
  case (1 env day scheduledDate dayLocations driverCount stopsPerDriver i)
  let ?start = "i * stopsPerDriver"
  let ?end = "min (?start + stopsPerDriver) (length dayLocations)"
  show ?case
  proof (cases "int i < driverCount \<and> \<not> length dayLocations \<le> ?start")
    case False
    with "1.prems" show ?thesis by (subst (asm) roundRobin.simps) (auto simp: Let_def)
  next
    case True
    from "1.prems" True have
      "r = routeForBlock env day scheduledDate i (slice ?start ?end dayLocations) \<or>
       r \<in> set (roundRobin env day scheduledDate dayLocations driverCount stopsPerDriver (Suc i))"
      by (subst (asm) roundRobin.simps) (auto simp: Let_def)
    then show ?thesis
    proof
      assume "r = routeForBlock env day scheduledDate i (slice ?start ?end dayLocations)"
      moreover have "set (slice ?start ?end dayLocations) \<subseteq> set dayLocations"
        unfolding slice_def
        by (meson dual_order.trans set_drop_subset set_take_subset)
      ultimately show ?thesis by blast
    next
      assume "r \<in> set (roundRobin env day scheduledDate dayLocations driverCount
                          stopsPerDriver (Suc i))"
      with "1.IH" [OF _ refl refl] True show ?thesis by auto
    qed
  qed
qed

lemma generateRoutesForDay_member:
  assumes "r \<in> set (generateRoutesForDay env dayLocations driverCount day scheduledDate)"
  shows "(\<exists>j cluster. r = routeForCluster env day scheduledDate j cluster \<and>
            set cluster \<subseteq> set dayLocations) \<or>
         (\<exists>j block. r = routeForBlock env day scheduledDate j block \<and>
            set block \<subseteq> set dayLocations)"
proof (cases "length (filter hasCoords dayLocations) = length dayLocations \<and> 0 < length dayLocations")
  case True
  with assms obtain j cluster where
    "(j, cluster) \<in> set (enumerate 0 (kMeansClustering dayLocations driverCount))"
    "r = routeForCluster env day scheduledDate j cluster"
    by (auto simp: generateRoutesForDay_def Let_def)
  moreover then have "cluster \<in> set (kMeansClustering dayLocations driverCount)"
    by (auto simp: in_set_enumerate_eq)
  ultimately show ?thesis using kMeansClustering_subset by blast
next
  case False
  with assms have "r \<in> set (roundRobin env day scheduledDate dayLocations driverCount
      (nat \<lceil>real (length dayLocations) / real_of_int driverCount\<rceil>) 0)"
    by (auto simp: generateRoutesForDay_def Let_def)
  then show ?thesis using roundRobin_member by blast
qed

lemma enumerate_map: "enumerate n (map f xs) = map (\<lambda>(i, x). (i, f x)) (enumerate n xs)"
  by (induction xs arbitrary: n) auto

lemma generateRoutesForDay_singletons:
  assumes "dayLocations \<noteq> []" "\<forall>loc \<in> set dayLocations. hasCoords loc"
    "int (length dayLocations) \<le> driverCount"
  shows "generateRoutesForDay env dayLocations driverCount day scheduledDate =
         map (\<lambda>(route, loc). routeForCluster env day scheduledDate route [loc])
           (enumerate 0 dayLocations)"
proof -
  have f: "filter hasCoords dayLocations = dayLocations" using assms(2) by simp
  have k: "kMeansClustering dayLocations driverCount = map (\<lambda>loc. [loc]) dayLocations"
    using kMeansClustering_singletons [of dayLocations driverCount] assms(3) f by simp
  have e: "enumerate 0 (map (\<lambda>loc. [loc]) dayLocations) =
           map (\<lambda>(route, loc). (route, [loc])) (enumerate 0 dayLocations)"
    by (rule enumerate_map)
  have g: "filter (\<lambda>(route, cluster). length cluster \<noteq> 0)
             (map (\<lambda>(route, loc). (route, [loc])) (enumerate 0 dayLocations)) =
           map (\<lambda>(route, loc). (route, [loc])) (enumerate 0 dayLocations)"
    by (simp add: filter_map comp_def case_prod_beta)
  show ?thesis
    using assms(1) unfolding generateRoutesForDay_def Let_def f k e g
    by (simp add: comp_def case_prod_beta)
qed

text \<open>
  Claim C6. When the target count \<open>k\<close> is at least the number \<open>n\<close> of locations with
  coordinates, \<open>kMeansClustering\<close> returns one singleton cluster per such location, in
  input order, without running the refinement; with two located stops and \<open>k = 5\<close> it
  returns two clusters, and route generation produces two routes.
\<close>

theorem kMeansClustering_singleton_shortcut:
  "(int (length (filter hasCoords locations)) \<le> k \<longrightarrow>
      kMeansClustering locations k = map (\<lambda>loc. [loc]) (filter hasCoords locations)) \<and>
   (hasCoords a \<and> hasCoords b \<longrightarrow>
      kMeansClustering [a, b] 5 = [[a], [b]] \<and>
      length (generateRoutesForDay env [a, b] 5 day scheduledDate) = 2)"
proof (intro conjI impI)
  assume "int (length (filter hasCoords locations)) \<le> k"
  then show "kMeansClustering locations k = map (\<lambda>loc. [loc]) (filter hasCoords locations)"
    by (rule kMeansClustering_singletons)
next
  assume ab: "hasCoords a \<and> hasCoords b"
  then show "kMeansClustering [a, b] 5 = [[a], [b]]"
    using kMeansClustering_singletons [of "[a, b]" 5] by simp
  show "length (generateRoutesForDay env [a, b] 5 day scheduledDate) = 2"
    using generateRoutesForDay_singletons [of "[a, b]" 5 env day scheduledDate] ab by simp
qed

theorem kMeansClustering_singleton_shortcut_witness:
  "kMeansClustering
     [exampleLocation ''A'' (Some 39) (Some (- 76)), exampleLocation ''B'' (Some 40) (Some (- 75))] 5 =
     [[exampleLocation ''A'' (Some 39) (Some (- 76))],
      [exampleLocation ''B'' (Some 40) (Some (- 75))]] \<and>
   length (generateRoutesForDay exampleEnv
     [exampleLocation ''A'' (Some 39) (Some (- 76)), exampleLocation ''B'' (Some 40) (Some (- 75))]
     5 ''monday'' None) = 2"
proof -
  have "hasCoords (exampleLocation ''A'' (Some 39) (Some (- 76))) \<and>
        hasCoords (exampleLocation ''B'' (Some 40) (Some (- 75)))"
    by (simp add: hasCoords_def exampleLocation_def)
  then show ?thesis
    using kMeansClustering_singleton_shortcut
      [of "[]" 0 "exampleLocation ''A'' (Some 39) (Some (- 76))"
          "exampleLocation ''B'' (Some 40) (Some (- 75))" exampleEnv "''monday''" None]
    by blast
qed

lemma length_finalStops [simp]: "length (finalStops env route n ds) = length ds + 2"
  by (simp add: finalStops_def Let_def)

lemma routeForCluster_two_stops:
  "2 \<le> length (stopsJson (routeForCluster env day scheduledDate route cluster))"
  by (simp add: routeForCluster_stops(1))

lemma routeForBlock_two_stops:
  "2 \<le> length (stopsJson (routeForBlock env day scheduledDate route routeLocations))"
  by (simp add: routeForBlock_stops(1))

lemma generateRoutesForDay_stops_nonempty:
  assumes "r \<in> set (generateRoutesForDay env dayLocations driverCount day scheduledDate)"
  shows "2 \<le> length (stopsJson r)" and "stopCount r = length (stopsJson r)"
    and "routeLink r = generateGoogleMapsUrl (stopsJson r)"
proof -
  from generateRoutesForDay_member [OF assms]
  have "2 \<le> length (stopsJson r) \<and> stopCount r = length (stopsJson r) \<and>
        routeLink r = generateGoogleMapsUrl (stopsJson r)"
  proof (elim disjE exE conjE)
    fix j cluster assume "r = routeForCluster env day scheduledDate j cluster"
    then show ?thesis
      using routeForCluster_two_stops routeForCluster_stops(2,3) by metis
  next
    fix j block assume "r = routeForBlock env day scheduledDate j block"
    then show ?thesis
      using routeForBlock_two_stops routeForBlock_stops(2,3) by metis
  qed
  then show "2 \<le> length (stopsJson r)" and "stopCount r = length (stopsJson r)"
    and "routeLink r = generateGoogleMapsUrl (stopsJson r)" by blast+
qed

text \<open>
  Claim C9. For every non-empty stop list, the map link is the text
  \<open>https://www.google.com/maps/dir/\<close> followed by the percent-encoded addresses of the
  stops in order, with a slash between neighbours; and the link of every generated route
  is that text for its final stop list, which is never empty.
\<close>

theorem generateGoogleMapsUrl_format:
  "(stops \<noteq> [] \<longrightarrow> generateGoogleMapsUrl stops = directionsUrl stops) \<and>
   (\<forall>r \<in> set (generateRoutesForDay env dayLocations driverCount day scheduledDate).
      stopsJson r \<noteq> [] \<and> routeLink r = directionsUrl (stopsJson r))"
proof (intro conjI impI ballI)
  assume "stops \<noteq> []"
  then show "generateGoogleMapsUrl stops = directionsUrl stops"
    by (rule generateGoogleMapsUrl_directions)
next
  fix r assume r: "r \<in> set (generateRoutesForDay env dayLocations driverCount day scheduledDate)"
  from generateRoutesForDay_stops_nonempty(1) [OF r] show ne: "stopsJson r \<noteq> []" by auto
  show "routeLink r = directionsUrl (stopsJson r)"
    using generateRoutesForDay_stops_nonempty(3) [OF r] generateGoogleMapsUrl_directions [OF ne]
    by simp
qed

lemma encodeURIComponent_example:
  "encodeURIComponent ''3700 Pennington Ave Baltimore, MD 21226'' =
   ''3700%20Pennington%20Ave%20Baltimore%2C%20MD%2021226''"
  by (simp add: encodeURIComponent_def encodeByte_def unreserved_def hexDigit_def)

theorem generateGoogleMapsUrl_format_witness:
  "generateGoogleMapsUrl
     [createWarehouseStop exampleEnv ''u1'' 1 True, exampleStop ''A'' None None 2,
      createWarehouseStop exampleEnv ''u2'' 3 False] =
   ''https://www.google.com/maps/dir/3700%20Pennington%20Ave%20Baltimore%2C%20MD%2021226/A%20Main%20St/3700%20Pennington%20Ave%20Baltimore%2C%20MD%2021226''"
proof -
  have "[createWarehouseStop exampleEnv ''u1'' 1 True, exampleStop ''A'' None None 2,
         createWarehouseStop exampleEnv ''u2'' 3 False] \<noteq> []" by simp
  with generateGoogleMapsUrl_format
    [of "[createWarehouseStop exampleEnv ''u1'' 1 True, exampleStop ''A'' None None 2,
          createWarehouseStop exampleEnv ''u2'' 3 False]" exampleEnv "[]" 1 "''monday''" None]
  have "generateGoogleMapsUrl
     [createWarehouseStop exampleEnv ''u1'' 1 True, exampleStop ''A'' None None 2,
      createWarehouseStop exampleEnv ''u2'' 3 False] =
     directionsUrl
     [createWarehouseStop exampleEnv ''u1'' 1 True, exampleStop ''A'' None None 2,
      createWarehouseStop exampleEnv ''u2'' 3 False]" by blast
  then show ?thesis
    by (simp add: directionsUrl_def addressText_def createWarehouseStop_def exampleStop_def
        warehouse_def exampleEnv_def orElse_def encodeURIComponent_example)
       (simp add: encodeURIComponent_def encodeByte_def unreserved_def hexDigit_def)
qed




section \<open>Time and distance of the generated routes\<close>




lemma ex_real_times: "a \<noteq> 0 \<Longrightarrow> (\<exists>y::real. y * a = b) \<longleftrightarrow> True"
  by (auto intro: exI [of _ "b / a"])

lemma nearestNeighborOrdering_one: "nearestNeighborOrdering [a] = [a]"
  by (simp add: nearestNeighborOrdering_def)

lemmas assembly_defs =
  ex_real_times Let_def nearestNeighborOrdering_one mkDeliveryStops_def
  fullRouteForOptimization_def optimizeRouteWithGoogle_def
  truthy_def deliveryStop_def exampleLocation_def orUndefined_def orUndefinedNum_def
  createWarehouseStop_def warehouse_def orElse_def orElseNum_def tryComputeRoutes_def
  routesRequest_def sliceInner_def exampleAnswer_def num_def Math_round_def durationMinutes_def
  js_nth_def withSequence_def renumber_def finalStops_def draftRoute_def

lemma generateRoutesForDay_one_located:
  "hasCoords loc \<Longrightarrow>
   generateRoutesForDay env [loc] 1 day scheduledDate = [routeForCluster env day scheduledDate 0 [loc]]"
  using generateRoutesForDay_singletons [of "[loc]" 1 env day scheduledDate] by simp

lemma generateRoutesForDay_one_unlocated:
  "\<not> hasCoords loc \<Longrightarrow>
   generateRoutesForDay env [loc] 1 day scheduledDate = [routeForBlock env day scheduledDate 0 [loc]]"
  by (simp add: generateRoutesForDay_def Let_def roundRobin.simps slice_def)





section \<open>Shape of the generated routes\<close>

lemma isDeliveryStopOf_sequence [simp]:
  "isDeliveryStopOf locs (s\<lparr>sequence := n\<rparr>) = isDeliveryStopOf locs s"
  by (simp add: isDeliveryStopOf_def)

lemma isDeliveryStopOf_mono:
  "set locs \<subseteq> set locs' \<Longrightarrow> isDeliveryStopOf locs s \<Longrightarrow> isDeliveryStopOf locs' s"
  by (auto simp: isDeliveryStopOf_def)

lemma mkDeliveryStops_delivery:
  "s \<in> set (mkDeliveryStops env route locs) \<Longrightarrow> isDeliveryStopOf locs s"
  by (auto simp: mkDeliveryStops_def isDeliveryStopOf_def deliveryStop_def in_set_enumerate_eq)

lemma renumber_delivery:
  assumes "\<forall>s \<in> set ds. isDeliveryStopOf locs s" "s \<in> set (renumber ds)"
  shows "isDeliveryStopOf locs s"
  using assms by (auto simp: renumber_def in_set_enumerate_eq)

lemma enumerate_snd_mem: "(i, x) \<in> set (enumerate n xs) \<Longrightarrow> x \<in> set xs"
  by (auto simp: in_set_enumerate_eq)

lemma sliceInner_enumerate:
  "sliceInner (enumerate 0 ([a] @ xs @ [b])) = enumerate 1 xs"
  by (simp add: sliceInner_def enumerate_append_eq butlast_append)

lemma optimizeRouteWithGoogle_Some:
  assumes "optimizeRouteWithGoogle env call stops = Some g"
  shows "\<exists>ok route rest.
           fetchRoutes env call (routesRequest stops) = Responded ok (Some (route # rest)) \<and>
           optimizedStops g =
             map (\<lambda>(index, stop). withSequence stop (index + 1))
               (enumerate 0
                  (case optimizedIntermediateWaypointIndex route of
                     Some indices \<Rightarrow>
                       if 0 < length (sliceInner stops)
                       then [Some (stops ! 0)] @ map (js_nth (sliceInner stops)) indices @
                            [Some (stops ! (length stops - 1))]
                       else map Some stops
                   | None \<Rightarrow> map Some stops))"
  using assms
  by (auto simp: optimizeRouteWithGoogle_def tryComputeRoutes_def Let_def
      split: if_splits FetchOutcome.splits option.splits list.splits sum.splits thrown.splits)

lemma length_routesRequest [simp]:
  "length (req_intermediates (routesRequest stops)) = length (sliceInner stops)"
  by (simp add: routesRequest_def Let_def)

lemma optimized_inner_delivery:
  assumes g: "optimizeRouteWithGoogle env call ([a] @ mid @ [b]) = Some g"
    and inr: "indicesInRange env"
    and mid: "\<forall>s \<in> set mid. isDeliveryStopOf locs s"
    and s: "s \<in> set (sliceInner (optimizedStops g))"
  shows "isDeliveryStopOf locs s"
proof -
  let ?stops = "[a] @ mid @ [b]"
  have sl: "sliceInner ?stops = mid" by (rule sliceInner_bookends)
  have first: "?stops ! 0 = a" by simp
  have lst: "?stops ! (length ?stops - 1) = b" by (simp add: nth_append)
  from optimizeRouteWithGoogle_Some [OF g] obtain ok route rest where
    f: "fetchRoutes env call (routesRequest ?stops) = Responded ok (Some (route # rest))"
    and o: "optimizedStops g =
             map (\<lambda>(index, stop). withSequence stop (index + 1))
               (enumerate 0
                  (case optimizedIntermediateWaypointIndex route of
                     Some indices \<Rightarrow>
                       if 0 < length mid
                       then [Some a] @ map (js_nth mid) indices @ [Some b]
                       else map Some ?stops
                   | None \<Rightarrow> map Some ?stops))"
    unfolding sl first lst by blast
  define xs where "xs =
    (case optimizedIntermediateWaypointIndex route of
       Some indices \<Rightarrow> if 0 < length mid then map (js_nth mid) indices else map Some mid
     | None \<Rightarrow> map Some mid)"
  have shape: "(case optimizedIntermediateWaypointIndex route of
                     Some indices \<Rightarrow>
                       if 0 < length mid
                       then [Some a] @ map (js_nth mid) indices @ [Some b]
                       else map Some ?stops
                   | None \<Rightarrow> map Some ?stops) = [Some a] @ xs @ [Some b]"
    by (simp add: xs_def split: option.splits)
  have xs_ok: "\<forall>x \<in> set xs. \<exists>m \<in> set mid. x = Some m"
  proof
    fix x assume x: "x \<in> set xs"
    show "\<exists>m \<in> set mid. x = Some m"
    proof (cases "optimizedIntermediateWaypointIndex route")
      case None
      with x show ?thesis by (auto simp: xs_def)
    next
      case (Some indices)
      show ?thesis
      proof (cases "0 < length mid")
        case False
        with x Some show ?thesis by (auto simp: xs_def)
      next
        case True
        with x Some obtain idx where idx: "idx \<in> set indices" "x = js_nth mid idx"
          by (auto simp: xs_def)
        from inr f Some idx(1) have "0 \<le> idx \<and> nat idx < length mid"
          unfolding indicesInRange_def using length_routesRequest [of ?stops] sl by metis
        with idx(2) show ?thesis by (auto simp: js_nth_def)
      qed
    qed
  qed
  from s have "s \<in> set (map (\<lambda>(index, stop). withSequence stop (index + 1)) (enumerate 1 xs))"
    unfolding o shape sliceInner_map sliceInner_enumerate .
  then obtain i x where ix: "(i, x) \<in> set (enumerate 1 xs)" "s = withSequence x (i + 1)"
    by auto
  from ix(1) have "x \<in> set xs" by (rule enumerate_snd_mem)
  note this ix(2)
  with xs_ok obtain m where "m \<in> set mid" "s = m\<lparr>sequence := i + 1\<rparr>"
    by (auto simp: withSequence_def)
  with mid show ?thesis by simp
qed

lemma adoptedStops_delivery:
  assumes "optimizerUnavailable env \<or> indicesInRange env"
    and "googleResult = None \<or>
         googleResult = optimizeRouteWithGoogle env route (fullRouteForOptimization env route locs)"
    and "s \<in> set (adoptedStops googleResult (mkDeliveryStops env route locs))"
  shows "isDeliveryStopOf locs s"
proof (cases googleResult)
  case None
  with assms(3) show ?thesis by (simp add: adoptedStops_def mkDeliveryStops_delivery)
next
  case (Some g)
  with assms(2) have g: "optimizeRouteWithGoogle env route
      (fullRouteForOptimization env route locs) = Some g" by simp
  with assms(1) have inr: "indicesInRange env" by (auto simp: optimizerUnavailable_def)
  have full: "fullRouteForOptimization env route locs =
      [createWarehouseStop env (randomUUID env route (length locs)) 1 True] @
      mkDeliveryStops env route locs @
      [createWarehouseStop env (randomUUID env route (length locs + 1)) (length locs + 2) False]"
    by (simp add: fullRouteForOptimization_def Let_def)
  have inner: "\<forall>s \<in> set (sliceInner (optimizedStops g)). isDeliveryStopOf locs s"
    using optimized_inner_delivery [OF g [unfolded full] inr] mkDeliveryStops_delivery by blast
  from assms(3) Some have "s \<in> set (renumber (sliceInner (optimizedStops g)))"
    by (simp add: adoptedStops_def)
  with inner show ?thesis by (rule renumber_delivery)
qed

lemma finalStops_bookended:
  assumes st: "stops = finalStops env route n ds"
    and seq: "map sequence ds = [2..<length ds + 2]"
  shows "map sequence stops = [1..<length stops + 1] \<and>
         2 \<le> length stops \<and>
         (\<exists>uuid. hd stops = createWarehouseStop env uuid 1 True) \<and>
         (\<exists>name. customerName (hd stops) = Some (''Start: '' @ name)) \<and>
         sequence (hd stops) = 1 \<and>
         (\<exists>uuid. last stops = createWarehouseStop env uuid (length stops - 2 + 2) False) \<and>
         (\<exists>name. customerName (last stops) = Some (''End: '' @ name)) \<and>
         sequence (last stops) = length stops - 2 + 2 \<and>
         sliceInner stops = ds"
proof -
  note sh = finalStops_shape [OF seq, of env route n]
  have len: "length stops = length ds + 2" unfolding st by (rule sh(2))
  have h: "hd stops = createWarehouseStop env (randomUUID env route (n + 2)) 1 True"
    unfolding st by (rule sh(4))
  have l: "last stops =
           createWarehouseStop env (randomUUID env route (n + 3)) (length stops - 2 + 2) False"
    unfolding st using sh(5) sh(2) by simp
  have c1: "map sequence stops = [1..<length stops + 1]" unfolding st by (rule sh(1))
  have c2: "2 \<le> length stops" using len by simp
  have c3: "\<exists>uuid. hd stops = createWarehouseStop env uuid 1 True" using h by (rule exI)
  have c4: "\<exists>name. customerName (hd stops) = Some (''Start: '' @ name)"
    unfolding h by (simp add: createWarehouseStop_def)
  have c5: "sequence (hd stops) = 1" unfolding h by (simp add: createWarehouseStop_def)
  have c6: "\<exists>uuid. last stops = createWarehouseStop env uuid (length stops - 2 + 2) False"
    using l by (rule exI)
  have c7: "\<exists>name. customerName (last stops) = Some (''End: '' @ name)"
    unfolding l by (simp add: createWarehouseStop_def)
  have c8: "sequence (last stops) = length stops - 2 + 2"
    unfolding l by (simp add: createWarehouseStop_def)
  have c9: "sliceInner stops = ds" unfolding st by (rule sh(3))
  show ?thesis by (intro conjI c1 c2 c3 c4 c5 c6 c7 c8 c9)
qed

lemma set_nearestNeighborOrdering: "set (nearestNeighborOrdering locations) = set locations"
proof -
  have "mset (nearestNeighborOrdering locations) = mset locations"
    using nearestNeighborOrdering_walk by blast
  then show ?thesis by (rule mset_eq_setD)
qed

lemma generateRoutesForDay_assembled:
  assumes "r \<in> set (generateRoutesForDay env dayLocations driverCount day scheduledDate)"
  shows "\<exists>route n locs googleResult.
           set locs \<subseteq> set dayLocations \<and>
           (googleResult = None \<or>
            googleResult =
              optimizeRouteWithGoogle env route (fullRouteForOptimization env route locs)) \<and>
           stopsJson r =
             finalStops env route n (adoptedStops googleResult (mkDeliveryStops env route locs))"
  using generateRoutesForDay_member [OF assms]
proof (elim disjE exE conjE)
  fix j cluster
  assume r: "r = routeForCluster env day scheduledDate j cluster"
    and sub: "set cluster \<subseteq> set dayLocations"
  let ?locs = "nearestNeighborOrdering cluster"
  let ?g = "optimizeRouteWithGoogle env j (fullRouteForOptimization env j ?locs)"
  have 1: "set ?locs \<subseteq> set dayLocations"
    using sub by (simp add: set_nearestNeighborOrdering)
  have 2: "?g = None \<or> ?g = optimizeRouteWithGoogle env j (fullRouteForOptimization env j ?locs)"
    by simp
  have 3: "stopsJson r =
           finalStops env j (length ?locs) (adoptedStops ?g (mkDeliveryStops env j ?locs))"
    unfolding r by (rule routeForCluster_stops(1))
  show ?thesis
    apply (rule exI [of _ j])
    apply (rule exI [of _ "length ?locs"])
    apply (rule exI [of _ ?locs])
    apply (rule exI [of _ ?g])
    apply (intro conjI 1 2 3)
    done
next
  fix j block
  assume r: "r = routeForBlock env day scheduledDate j block"
    and sub: "set block \<subseteq> set dayLocations"
  let ?g = "blockResult env j block"
  have 2: "?g = None \<or> ?g = optimizeRouteWithGoogle env j (fullRouteForOptimization env j block)"
    by (simp add: blockResult_def)
  have 3: "stopsJson r =
           finalStops env j (length block) (adoptedStops ?g (mkDeliveryStops env j block))"
    unfolding r by (rule routeForBlock_stops(1))
  show ?thesis
    apply (rule exI [of _ j])
    apply (rule exI [of _ "length block"])
    apply (rule exI [of _ block])
    apply (rule exI [of _ ?g])
    apply (intro conjI sub 2 3)
    done
qed

text \<open>
  Claim C5, as amended. Every generated route has a stop list of at least two stops
  whose sequence numbers are 1, 2, ... up to the number of stops, which is its stop
  count; the first stop is a depot stop with a customer name that starts with
  \<open>Start:\<close> and sequence 1, the last a depot stop with a customer name that starts with
  \<open>End:\<close> and sequence delivery count + 2. When the optimizer gives no result, or when
  every index in its answers names one of the intermediates submitted, every stop strictly
  between them is a delivery stop of one of the input locations.
\<close>

theorem generated_route_shape:
  assumes "r \<in> set (generateRoutesForDay env dayLocations driverCount day scheduledDate)"
  shows "map sequence (stopsJson r) = [1..<length (stopsJson r) + 1] \<and>
         stopCount r = length (stopsJson r) \<and>
         2 \<le> length (stopsJson r) \<and>
         (\<exists>uuid. hd (stopsJson r) = createWarehouseStop env uuid 1 True) \<and>
         (\<exists>name. customerName (hd (stopsJson r)) = Some (''Start: '' @ name)) \<and>
         sequence (hd (stopsJson r)) = 1 \<and>
         (\<exists>uuid. last (stopsJson r) =
            createWarehouseStop env uuid (length (stopsJson r) - 2 + 2) False) \<and>
         (\<exists>name. customerName (last (stopsJson r)) = Some (''End: '' @ name)) \<and>
         sequence (last (stopsJson r)) = length (stopsJson r) - 2 + 2 \<and>
         (optimizerUnavailable env \<or> indicesInRange env \<longrightarrow>
            (\<forall>s \<in> set (sliceInner (stopsJson r)). isDeliveryStopOf dayLocations s))"
proof -
  from generateRoutesForDay_assembled [OF assms] obtain route n locs googleResult where
    sub: "set locs \<subseteq> set dayLocations"
    and g: "googleResult = None \<or>
            googleResult =
              optimizeRouteWithGoogle env route (fullRouteForOptimization env route locs)"
    and st: "stopsJson r =
             finalStops env route n (adoptedStops googleResult (mkDeliveryStops env route locs))"
    by blast
  let ?ds = "adoptedStops googleResult (mkDeliveryStops env route locs)"
  note b = finalStops_bookended [OF st sequence_adoptedStops]
  have inner: "sliceInner (stopsJson r) = ?ds"
    using b by (elim conjE)
  have front: "map sequence (stopsJson r) = [1..<length (stopsJson r) + 1]"
    using b by (elim conjE)
  have rest: "2 \<le> length (stopsJson r) \<and>
         (\<exists>uuid. hd (stopsJson r) = createWarehouseStop env uuid 1 True) \<and>
         (\<exists>name. customerName (hd (stopsJson r)) = Some (''Start: '' @ name)) \<and>
         sequence (hd (stopsJson r)) = 1 \<and>
         (\<exists>uuid. last (stopsJson r) =
            createWarehouseStop env uuid (length (stopsJson r) - 2 + 2) False) \<and>
         (\<exists>name. customerName (last (stopsJson r)) = Some (''End: '' @ name)) \<and>
         sequence (last (stopsJson r)) = length (stopsJson r) - 2 + 2"
    using b by (elim conjE) (intro conjI)
  have del: "optimizerUnavailable env \<or> indicesInRange env \<longrightarrow>
            (\<forall>s \<in> set (sliceInner (stopsJson r)). isDeliveryStopOf dayLocations s)"
  proof (intro impI ballI)
    fix s
    assume h: "optimizerUnavailable env \<or> indicesInRange env"
      and s: "s \<in> set (sliceInner (stopsJson r))"
    from s have "s \<in> set ?ds" unfolding inner .
    from adoptedStops_delivery [OF h g this] have "isDeliveryStopOf locs s" .
    with sub show "isDeliveryStopOf dayLocations s" by (rule isDeliveryStopOf_mono)
  qed
  show ?thesis
    by (intro conjI front generateRoutesForDay_stops_nonempty(2) [OF assms] del
        rest [THEN conjunct1] rest [THEN conjunct2, THEN conjunct1]
        rest [THEN conjunct2, THEN conjunct2, THEN conjunct1]
        rest [THEN conjunct2, THEN conjunct2, THEN conjunct2, THEN conjunct1]
        rest [THEN conjunct2, THEN conjunct2, THEN conjunct2, THEN conjunct2, THEN conjunct1]
        rest [THEN conjunct2, THEN conjunct2, THEN conjunct2, THEN conjunct2, THEN conjunct2,
              THEN conjunct1]
        rest [THEN conjunct2, THEN conjunct2, THEN conjunct2, THEN conjunct2, THEN conjunct2,
              THEN conjunct2])
qed

lemma closestLoop_single:
  "closestLoop lat1 lng1 [c] 0 None 0 = 0"
  by (simp add: Let_def lt_minDist_def)

lemma assignAll_single: "assignAll [c] validLocations = replicate (length validLocations) 0"
  by (simp add: assignAll_def closestLoop_single map_replicate_const del: closestLoop.simps)

lemma groupByCluster_single:
  "groupByCluster [acc] (replicate (length locs) 0) locs = [acc @ locs]"
  by (induction locs arbitrary: acc) simp_all

lemma refine_single:
  "refine (Suc m) 1 validLocations [c] (replicate (length validLocations) 0) =
   replicate (length validLocations) 0"
  by (simp add: Let_def assignAll_single list_all_iff)

text \<open>With one driver, all located stops form one cluster, in input order.\<close>

lemma kMeansClustering_one:
  assumes "2 \<le> length (filter hasCoords locations)"
  shows "kMeansClustering locations 1 = [filter hasCoords locations]"
proof -
  let ?v = "filter hasCoords locations"
  have c: "\<exists>c. initialCentroids ?v (nat 1) = [c]"
    by (simp add: initialCentroids_def Let_def)
  then obtain c where c: "initialCentroids ?v (nat 1) = [c]" by blast
  have twenty: "(20::nat) = Suc 19" by simp
  have r: "refine 20 (nat 1) ?v [c] (replicate (length ?v) 0) = replicate (length ?v) 0"
    unfolding twenty using refine_single [of 19 ?v c] by simp
  have g: "groupByCluster (replicate (nat 1) []) (replicate (length ?v) 0) ?v = [?v]"
    using groupByCluster_single [of "[]" ?v] by simp
  have ne: "?v \<noteq> []" using assms by auto
  show ?thesis
    using assms ne unfolding kMeansClustering_def Let_def c r g by simp
qed

lemma nearestNeighborOrdering_two: "nearestNeighborOrdering [a, b] = [a, b]"
  by (simp add: nearestNeighborOrdering_def walk.simps [of "[a]" "[b]"] Let_def lt_minDist_def
      spliceOut_def)

lemma generateRoutesForDay_one_driver:
  assumes "hasCoords a" "hasCoords b"
  shows "generateRoutesForDay env [a, b] 1 day scheduledDate =
         [routeForCluster env day scheduledDate 0 [a, b]]"
proof -
  have "kMeansClustering [a, b] 1 = [[a, b]]"
    using kMeansClustering_one [of "[a, b]"] assms by simp
  then show ?thesis using assms by (simp add: generateRoutesForDay_def Let_def)
qed

theorem generated_route_shape_counterexample:
  "length (generateRoutesForDay (exampleEnvGoogle [- 1])
      [exampleLocation ''A'' (Some 39) (Some (- 76))] 1 ''monday'' None) = 1 \<and>
   map customerName (stopsJson (hd (generateRoutesForDay (exampleEnvGoogle [- 1])
      [exampleLocation ''A'' (Some 39) (Some (- 76))] 1 ''monday'' None))) =
     [Some ''Start: Warehouse'', None, Some ''End: Warehouse''] \<and>
   \<not> isDeliveryStopOf [exampleLocation ''A'' (Some 39) (Some (- 76))]
       (stopsJson (hd (generateRoutesForDay (exampleEnvGoogle [- 1])
          [exampleLocation ''A'' (Some 39) (Some (- 76))] 1 ''monday'' None)) ! 1)"
proof -
  have a: "hasCoords (exampleLocation ''A'' (Some 39) (Some (- 76)))"
    by (simp add: hasCoords_def exampleLocation_def)
  have s: "stopsJson (routeForCluster (exampleEnvGoogle [- 1]) ''monday'' None 0
             [exampleLocation ''A'' (Some 39) (Some (- 76))]) =
           [createWarehouseStop (exampleEnvGoogle [- 1]) ''00000000-0000-4000-8000-000000000000'' 1 True,
            \<lparr>stop_id = None, locationId = None, address = None, customerName = None,
             serviceType = None, stop_notes = None, lat = None, lng = None, sequence = 2\<rparr>,
            createWarehouseStop (exampleEnvGoogle [- 1]) ''00000000-0000-4000-8000-000000000000'' 3 False]"
    by (simp add: routeForCluster_def assembly_defs exampleEnvGoogle_def exampleEnv_def)
  show ?thesis
    unfolding generateRoutesForDay_one_located [OF a]
    by (simp add: s)
       (simp add: createWarehouseStop_def warehouse_def exampleEnvGoogle_def exampleEnv_def
        orElse_def isDeliveryStopOf_def)
qed

lemma second_in_sliceInner:
  assumes "3 \<le> length xs"
  shows "xs ! 1 \<in> set (sliceInner xs)"
proof -
  have len: "0 < length (sliceInner xs)" using assms by (simp add: sliceInner_def)
  have "sliceInner xs ! 0 = tl xs ! 0"
    using len unfolding sliceInner_def by (simp add: nth_butlast)
  also have "\<dots> = xs ! 1" using assms by (simp add: nth_tl)
  finally have "xs ! 1 = sliceInner xs ! 0" by simp
  then show ?thesis using len by (metis nth_mem)
qed

lemma indicesInRange_exampleEnvReversing: "indicesInRange exampleEnvReversing"
  by (auto simp: indicesInRange_def exampleEnvReversing_def exampleEnv_def)

theorem generated_route_shape_witness:
  "map sequence (stopsJson (hd (generateRoutesForDay exampleEnvReversing
      [exampleLocation ''A'' (Some 39) (Some (- 76)), exampleLocation ''B'' (Some 40) (Some (- 75))]
      1 ''monday'' None))) = [1, 2, 3, 4] \<and>
   map locationId (stopsJson (hd (generateRoutesForDay exampleEnvReversing
      [exampleLocation ''A'' (Some 39) (Some (- 76)), exampleLocation ''B'' (Some 40) (Some (- 75))]
      1 ''monday'' None))) = [Some ''warehouse'', Some ''B'', Some ''A'', Some ''warehouse''] \<and>
   isDeliveryStopOf
     [exampleLocation ''A'' (Some 39) (Some (- 76)), exampleLocation ''B'' (Some 40) (Some (- 75))]
     (stopsJson (hd (generateRoutesForDay exampleEnvReversing
      [exampleLocation ''A'' (Some 39) (Some (- 76)), exampleLocation ''B'' (Some 40) (Some (- 75))]
      1 ''monday'' None)) ! 1) \<and>
   map sequence (stopsJson (hd (generateRoutesForDay exampleEnv
      [exampleLocation ''A'' None None] 1 ''monday'' None))) = [1, 2, 3]"
proof -
  let ?a = "exampleLocation ''A'' (Some 39) (Some (- 76))"
  let ?b = "exampleLocation ''B'' (Some 40) (Some (- 75))"
  let ?r = "routeForCluster exampleEnvReversing ''monday'' None 0 [?a, ?b]"
  have ab: "hasCoords ?a" "hasCoords ?b" by (simp_all add: hasCoords_def exampleLocation_def)
  have gen: "generateRoutesForDay exampleEnvReversing [?a, ?b] 1 ''monday'' None = [?r]"
    by (rule generateRoutesForDay_one_driver [OF ab])
  have mem: "?r \<in> set (generateRoutesForDay exampleEnvReversing [?a, ?b] 1 ''monday'' None)"
    unfolding gen by simp
  note sh = generated_route_shape [OF mem]
  have ids: "map locationId (stopsJson ?r) =
             [Some ''warehouse'', Some ''B'', Some ''A'', Some ''warehouse'']"
    by (simp add: routeForCluster_def nearestNeighborOrdering_two assembly_defs
        exampleEnvReversing_def exampleEnv_def)
  have "length (map locationId (stopsJson ?r)) = 4" unfolding ids by simp
  then have len: "length (stopsJson ?r) = 4" by simp
  have seq: "map sequence (stopsJson ?r) = [1, 2, 3, 4]"
    using sh unfolding len by (simp add: eval_nat_numeral upt_conv_Cons)
  have "\<forall>s \<in> set (sliceInner (stopsJson ?r)). isDeliveryStopOf [?a, ?b] s"
    using sh indicesInRange_exampleEnvReversing by blast
  moreover have "stopsJson ?r ! 1 \<in> set (sliceInner (stopsJson ?r))"
    using len by (intro second_in_sliceInner) simp
  ultimately have del: "isDeliveryStopOf [?a, ?b] (stopsJson ?r ! 1)" by blast
  let ?n = "exampleLocation ''A'' None None"
  let ?r0 = "routeForBlock exampleEnv ''monday'' None 0 [?n]"
  have n: "\<not> hasCoords ?n" by (simp add: hasCoords_def exampleLocation_def)
  have gen0: "generateRoutesForDay exampleEnv [?n] 1 ''monday'' None = [?r0]"
    by (rule generateRoutesForDay_one_unlocated [OF n])
  have mem0: "?r0 \<in> set (generateRoutesForDay exampleEnv [?n] 1 ''monday'' None)"
    unfolding gen0 by simp
  have len0: "length (stopsJson ?r0) = 3"
    by (simp add: routeForBlock_stops(1) adoptedStops_def blockResult_def stopsHaveCoords_def
        mkDeliveryStops_def deliveryStop_def exampleLocation_def orUndefinedNum_def)
  have seq0: "map sequence (stopsJson ?r0) = [1, 2, 3]"
    using generated_route_shape [OF mem0] unfolding len0
    by (simp add: eval_nat_numeral upt_conv_Cons)
  show ?thesis unfolding gen gen0 using seq ids del seq0 by simp
qed

section \<open>The round-robin division\<close>

lemma block_index_less:
  assumes "0 < sz"
  shows "j * sz < n \<longleftrightarrow> j < blockCount sz n"
proof -
  have "j < (n + sz - 1) div sz \<longleftrightarrow> Suc j \<le> (n + sz - 1) div sz" by auto
  also have "\<dots> \<longleftrightarrow> Suc j * sz \<le> n + sz - 1"
    using assms by (simp add: less_eq_div_iff_mult_less_eq)
  also have "\<dots> \<longleftrightarrow> j * sz < n" using assms by auto
  finally show ?thesis by (simp add: blockCount_def)
qed

lemma slice_block:
  "slice (j * sz) (min (j * sz + sz) (length xs)) xs = blockOf sz j xs"
proof -
  have "take (min (j * sz + sz) (length xs) - j * sz) (drop (j * sz) xs) =
        take sz (drop (j * sz) xs)"
    by (cases "j * sz + sz \<le> length xs") (simp_all add: min_def)
  then show ?thesis by (simp add: slice_def blockOf_def)
qed

lemma stopsPerDriver_bounds:
  assumes "1 \<le> driverCount" "0 < n"
  shows "0 < nat \<lceil>real n / real_of_int driverCount\<rceil>"
    and "n \<le> nat driverCount * nat \<lceil>real n / real_of_int driverCount\<rceil>"
proof -
  let ?c = "\<lceil>real n / real_of_int driverCount\<rceil>"
  have k: "0 < real_of_int driverCount" using assms(1) by simp
  have q: "0 < real n / real_of_int driverCount" using assms k by simp
  then have c0: "0 < ?c" by linarith
  then show "0 < nat ?c" by simp
  have h: "real n / real_of_int driverCount \<le> real_of_int ?c" by linarith
  have "real n = (real n / real_of_int driverCount) * real_of_int driverCount"
    using k by simp
  also have "\<dots> \<le> real_of_int ?c * real_of_int driverCount"
    using h k by (intro mult_right_mono) simp_all
  finally have "real n \<le> real_of_int ?c * real_of_int driverCount" .
  then have "int n \<le> ?c * driverCount"
    by (metis of_int_le_iff of_int_mult of_int_of_nat_eq)
  then have "int n \<le> int (nat driverCount * nat ?c)"
    using c0 assms(1) by (simp add: mult.commute)
  then show "n \<le> nat driverCount * nat ?c" by linarith
qed

lemma blockCount_le:
  assumes "0 < sz" "n \<le> k * sz"
  shows "blockCount sz n \<le> k"
proof (rule ccontr)
  assume "\<not> blockCount sz n \<le> k"
  then have "k < blockCount sz n" by simp
  then have "k * sz < n" using block_index_less [OF assms(1)] by blast
  with assms(2) show False by simp
qed

lemma roundRobin_blocks:
  assumes "0 < sz" "blockCount sz (length dayLocations) \<le> nat driverCount"
  shows "roundRobin env day scheduledDate dayLocations driverCount sz i =
         map (\<lambda>j. routeForBlock env day scheduledDate j (blockOf sz j dayLocations))
           [i..<blockCount sz (length dayLocations)]"
  using assms
proof (induction env day scheduledDate dayLocations driverCount sz i rule: roundRobin.induct)
  case (1 env day scheduledDate dayLocations driverCount stopsPerDriver i)
  let ?m = "blockCount stopsPerDriver (length dayLocations)"
  note lt = block_index_less [OF "1.prems"(1), of i "length dayLocations"]
  show ?case
  proof (cases "i < ?m")
    case False
    then have e: "[i..<?m] = []" by simp
    from False lt have "length dayLocations \<le> i * stopsPerDriver" by simp
    then show ?thesis
      unfolding e by (subst roundRobin.simps) (simp add: Let_def)
  next
    case True
    with "1.prems"(2) have ik: "int i < driverCount" by linarith
    from True lt have st: "\<not> length dayLocations \<le> i * stopsPerDriver" by simp
    have u: "[i..<?m] = i # [Suc i..<?m]" using True by (rule upt_conv_Cons)
    have ih: "roundRobin env day scheduledDate dayLocations driverCount stopsPerDriver (Suc i) =
         map (\<lambda>j. routeForBlock env day scheduledDate j (blockOf stopsPerDriver j dayLocations))
           [Suc i..<?m]"
      using "1.IH" [OF ik refl refl st "1.prems"] .
    show ?thesis
      unfolding u
      by (subst roundRobin.simps) (simp add: Let_def ik st ih slice_block)
  qed
qed

lemma concat_blocks:
  "concat (map (\<lambda>j. blockOf sz j xs) [0..<m]) = take (m * sz) xs"
proof (induction m)
  case 0
  show ?case by simp
next
  case (Suc m)
  have e: "Suc m * sz = m * sz + sz" by simp
  have "take (Suc m * sz) xs = take (m * sz) xs @ take sz (drop (m * sz) xs)"
    unfolding e by (rule take_add)
  with Suc show ?case by (simp add: blockOf_def)
qed

lemma generateRoutesForDay_fallback:
  assumes "\<exists>loc \<in> set dayLocations. \<not> hasCoords loc" "1 \<le> driverCount"
  defines "sz \<equiv> nat \<lceil>real (length dayLocations) / real_of_int driverCount\<rceil>"
  shows "generateRoutesForDay env dayLocations driverCount day scheduledDate =
         map (\<lambda>j. routeForBlock env day scheduledDate j (blockOf sz j dayLocations))
           [0..<blockCount sz (length dayLocations)]"
    and "0 < sz"
    and "int (blockCount sz (length dayLocations)) \<le> driverCount"
    and "length dayLocations \<le> blockCount sz (length dayLocations) * sz"
proof -
  from assms(1) have n: "0 < length dayLocations" by auto
  note b = stopsPerDriver_bounds [OF assms(2) n]
  show s: "0 < sz" unfolding sz_def by (rule b(1))
  have le: "blockCount sz (length dayLocations) \<le> nat driverCount"
    using blockCount_le [OF s] b(2) unfolding sz_def by blast
  then show "int (blockCount sz (length dayLocations)) \<le> driverCount"
    using assms(2) by linarith
  from assms(1) have "length (filter hasCoords dayLocations) \<noteq> length dayLocations"
    by (metis filter_id_conv length_filter_less less_irrefl)
  then have "generateRoutesForDay env dayLocations driverCount day scheduledDate =
             roundRobin env day scheduledDate dayLocations driverCount sz 0"
    by (simp add: generateRoutesForDay_def Let_def sz_def)
  then show "generateRoutesForDay env dayLocations driverCount day scheduledDate =
         map (\<lambda>j. routeForBlock env day scheduledDate j (blockOf sz j dayLocations))
           [0..<blockCount sz (length dayLocations)]"
    using roundRobin_blocks [OF s le] by simp
  show "length dayLocations \<le> blockCount sz (length dayLocations) * sz"
  proof (rule ccontr)
    assume "\<not> length dayLocations \<le> blockCount sz (length dayLocations) * sz"
    then have "blockCount sz (length dayLocations) * sz < length dayLocations" by simp
    then have "blockCount sz (length dayLocations) < blockCount sz (length dayLocations)"
      using block_index_less [OF s] by blast
    then show False by simp
  qed
qed

lemma map_snd_enumerate': "map (\<lambda>(i, x). f x) (enumerate n xs) = map f xs"
  by (induction xs arbitrary: n) simp_all

lemma locationId_mkDeliveryStops:
  "map locationId (mkDeliveryStops env route locs) = map (\<lambda>loc. Some (loc_id loc)) locs"
proof -
  have "map locationId (mkDeliveryStops env route locs) =
        map (\<lambda>(index, loc). Some (loc_id loc)) (enumerate 0 locs)"
    by (simp add: mkDeliveryStops_def deliveryStop_def case_prod_beta comp_def)
  then show ?thesis by (simp only: map_snd_enumerate')
qed

lemma sliceInner_finalStops: "sliceInner (finalStops env route n ds) = ds"
  unfolding finalStops_def Let_def by (rule sliceInner_bookends)

lemma routeForBlock_unoptimized:
  assumes "blockResult env route routeLocations = None"
  shows "sliceInner (stopsJson (routeForBlock env day scheduledDate route routeLocations)) =
         mkDeliveryStops env route routeLocations"
  unfolding routeForBlock_stops(1) assms sliceInner_finalStops
  by (simp add: adoptedStops_def)

lemma unlocated_block:
  assumes "routeLocations \<noteq> []"
    "\<forall>loc \<in> set routeLocations. loc_lat loc = None \<and> loc_lng loc = None"
  shows "\<not> stopsHaveCoords env route routeLocations"
    and "blockResult env route routeLocations = None"
proof -
  from assms(1) obtain loc rest where l: "routeLocations = loc # rest" by (cases routeLocations) auto
  with assms(2) have "loc_lat loc = None" by simp
  then show n: "\<not> stopsHaveCoords env route routeLocations"
    unfolding l
    by (simp add: stopsHaveCoords_def mkDeliveryStops_def deliveryStop_def orUndefinedNum_def)
  then show "blockResult env route routeLocations = None" by (simp add: blockResult_def)
qed

lemma blockOf_facts:
  assumes "0 < sz" "j < blockCount sz (length xs)"
  shows "blockOf sz j xs \<noteq> []"
    and "length (blockOf sz j xs) \<le> sz"
    and "Suc j < blockCount sz (length xs) \<Longrightarrow> length (blockOf sz j xs) = sz"
proof -
  from assms have lt: "j * sz < length xs" using block_index_less by blast
  then show "blockOf sz j xs \<noteq> []" using assms(1) by (simp add: blockOf_def)
  show "length (blockOf sz j xs) \<le> sz" by (simp add: blockOf_def)
  assume "Suc j < blockCount sz (length xs)"
  then have "Suc j * sz < length xs" using block_index_less [OF assms(1)] by blast
  then show "length (blockOf sz j xs) = sz" by (simp add: blockOf_def)
qed

text \<open>
  Claim C8. When some input stop lacks coordinates and the driver count \<open>k\<close> is at
  least 1, route generation cuts the \<open>n\<close> stops, in input order, into consecutive blocks
  of \<open>ceil(n / k)\<close> stops, the last one possibly shorter; it produces one route per
  non-empty block, route number \<open>j\<close> from block number \<open>j\<close>, and at most \<open>k\<close> routes;
  a route that the optimizer did not reorder has the stops of its block as its delivery
  stops, in order. For five stops without coordinates and \<open>k = 2\<close> the routes have 3 and 2
  delivery stops, no total distance, and 15 minutes per delivery stop.
\<close>

theorem roundRobin_division:
  assumes "\<exists>loc \<in> set dayLocations. \<not> hasCoords loc" "1 \<le> driverCount"
  shows "let n = length dayLocations;
             sz = nat \<lceil>real n / real_of_int driverCount\<rceil>;
             routes = generateRoutesForDay env dayLocations driverCount day scheduledDate
         in 0 < sz \<and>
            length routes = blockCount sz n \<and>
            int (length routes) \<le> driverCount \<and>
            concat (map (\<lambda>j. blockOf sz j dayLocations) [0..<length routes]) = dayLocations \<and>
            (\<forall>j < length routes.
               blockOf sz j dayLocations \<noteq> [] \<and>
               length (blockOf sz j dayLocations) \<le> sz \<and>
               (Suc j < length routes \<longrightarrow> length (blockOf sz j dayLocations) = sz) \<and>
               routes ! j = routeForBlock env day scheduledDate j (blockOf sz j dayLocations) \<and>
               (blockResult env j (blockOf sz j dayLocations) = None \<longrightarrow>
                  map locationId (sliceInner (stopsJson (routes ! j))) =
                  map (\<lambda>loc. Some (loc_id loc)) (blockOf sz j dayLocations))) \<and>
            (n = 5 \<and> driverCount = 2 \<and>
             (\<forall>loc \<in> set dayLocations. loc_lat loc = None \<and> loc_lng loc = None) \<longrightarrow>
               map (\<lambda>r. (length (sliceInner (stopsJson r)), totalDistance r, estimatedTime r)) routes =
               [(3, None, Some 45), (2, None, Some 30)])"
proof -
  define sz where "sz = nat \<lceil>real (length dayLocations) / real_of_int driverCount\<rceil>"
  define m where "m = blockCount sz (length dayLocations)"
  define routes where
    "routes = generateRoutesForDay env dayLocations driverCount day scheduledDate"
  note f = generateRoutesForDay_fallback [OF assms, folded sz_def]
  have r: "routes = map (\<lambda>j. routeForBlock env day scheduledDate j (blockOf sz j dayLocations))
                      [0..<m]"
    unfolding routes_def m_def by (rule f(1))
  have len: "length routes = m" unfolding r by simp
  have p1: "0 < sz" by (rule f(2))
  have p2: "length routes = blockCount sz (length dayLocations)" unfolding len m_def ..
  have p3: "int (length routes) \<le> driverCount" unfolding len m_def by (rule f(3))
  have p4: "concat (map (\<lambda>j. blockOf sz j dayLocations) [0..<length routes]) = dayLocations"
    unfolding len concat_blocks using f(4) unfolding m_def by simp
  have p5: "\<forall>j < length routes.
               blockOf sz j dayLocations \<noteq> [] \<and>
               length (blockOf sz j dayLocations) \<le> sz \<and>
               (Suc j < length routes \<longrightarrow> length (blockOf sz j dayLocations) = sz) \<and>
               routes ! j = routeForBlock env day scheduledDate j (blockOf sz j dayLocations) \<and>
               (blockResult env j (blockOf sz j dayLocations) = None \<longrightarrow>
                  map locationId (sliceInner (stopsJson (routes ! j))) =
                  map (\<lambda>loc. Some (loc_id loc)) (blockOf sz j dayLocations))"
  proof (intro allI impI)
    fix j assume j: "j < length routes"
    then have jm: "j < blockCount sz (length dayLocations)" unfolding len m_def .
    note bf = blockOf_facts [OF p1 jm]
    have nth: "routes ! j = routeForBlock env day scheduledDate j (blockOf sz j dayLocations)"
      using j unfolding len r by simp
    have un: "blockResult env j (blockOf sz j dayLocations) = None \<longrightarrow>
                  map locationId (sliceInner (stopsJson (routes ! j))) =
                  map (\<lambda>loc. Some (loc_id loc)) (blockOf sz j dayLocations)"
      unfolding nth by (simp add: routeForBlock_unoptimized locationId_mkDeliveryStops)
    have full: "Suc j < length routes \<longrightarrow> length (blockOf sz j dayLocations) = sz"
      using bf(3) unfolding len m_def by blast
    show "blockOf sz j dayLocations \<noteq> [] \<and>
               length (blockOf sz j dayLocations) \<le> sz \<and>
               (Suc j < length routes \<longrightarrow> length (blockOf sz j dayLocations) = sz) \<and>
               routes ! j = routeForBlock env day scheduledDate j (blockOf sz j dayLocations) \<and>
               (blockResult env j (blockOf sz j dayLocations) = None \<longrightarrow>
                  map locationId (sliceInner (stopsJson (routes ! j))) =
                  map (\<lambda>loc. Some (loc_id loc)) (blockOf sz j dayLocations))"
      by (intro conjI bf(1) bf(2) full nth un)
  qed
  have p6: "length dayLocations = 5 \<and> driverCount = 2 \<and>
             (\<forall>loc \<in> set dayLocations. loc_lat loc = None \<and> loc_lng loc = None) \<longrightarrow>
               map (\<lambda>r. (length (sliceInner (stopsJson r)), totalDistance r, estimatedTime r)) routes =
               [(3, None, Some 45), (2, None, Some 30)]"
  proof
    assume h: "length dayLocations = 5 \<and> driverCount = 2 \<and>
             (\<forall>loc \<in> set dayLocations. loc_lat loc = None \<and> loc_lng loc = None)"
    have s3: "sz = 3" unfolding sz_def using h by simp
    have m2: "m = 2" unfolding m_def s3 blockCount_def using h by simp
    have two: "[0..<2] = [0, Suc 0]" by (simp add: eval_nat_numeral upt_conv_Cons)
    have null: "\<forall>loc \<in> set (blockOf 3 j dayLocations). loc_lat loc = None \<and> loc_lng loc = None"
      for j
      using h unfolding blockOf_def by (meson in_set_dropD in_set_takeD)
    have l0: "length (blockOf 3 0 dayLocations) = 3" using h by (simp add: blockOf_def)
    have l1: "length (blockOf 3 (Suc 0) dayLocations) = 2" using h by (simp add: blockOf_def)
    have row: "(length (sliceInner (stopsJson (routeForBlock env day scheduledDate j
                   (blockOf 3 j dayLocations)))),
                totalDistance (routeForBlock env day scheduledDate j (blockOf 3 j dayLocations)),
                estimatedTime (routeForBlock env day scheduledDate j (blockOf 3 j dayLocations))) =
               (length (blockOf 3 j dayLocations), None,
                Some (int (length (blockOf 3 j dayLocations)) * 15))"
      if ne: "blockOf 3 j dayLocations \<noteq> []" for j
    proof -
      note u = unlocated_block [OF ne null, of env j]
      show ?thesis
        using routeForBlock_metrics(5) [OF u(1), of day scheduledDate]
          routeForBlock_unoptimized [OF u(2), of day scheduledDate]
        by simp
    qed
    have ne0: "blockOf 3 0 dayLocations \<noteq> []" using l0 by auto
    have ne1: "blockOf 3 (Suc 0) dayLocations \<noteq> []" using l1 by auto
    show "map (\<lambda>r. (length (sliceInner (stopsJson r)), totalDistance r, estimatedTime r)) routes =
               [(3, None, Some 45), (2, None, Some 30)]"
      unfolding r m2 s3 two using row [OF ne0] row [OF ne1] l0 l1 by simp
  qed
  show ?thesis
    unfolding Let_def sz_def [symmetric] routes_def [symmetric]
    by (intro conjI p1 p2 p3 p4 p5 p6)
qed

theorem roundRobin_division_witness:
  "map (\<lambda>r. (length (sliceInner (stopsJson r)), totalDistance r, estimatedTime r))
     (generateRoutesForDay exampleEnv fiveUnlocated 2 ''monday'' None) =
     [(3, None, Some 45), (2, None, Some 30)] \<and>
   map locationId (sliceInner (stopsJson
     (generateRoutesForDay exampleEnv fiveUnlocated 2 ''monday'' None ! 0))) =
     [Some ''A'', Some ''B'', Some ''C''] \<and>
   map locationId (sliceInner (stopsJson
     (generateRoutesForDay exampleEnv fiveUnlocated 2 ''monday'' None ! 1))) =
     [Some ''D'', Some ''E'']"
proof -
  let ?routes = "generateRoutesForDay exampleEnv fiveUnlocated 2 ''monday'' None"
  have ex: "\<exists>loc \<in> set fiveUnlocated. \<not> hasCoords loc"
    by (simp add: fiveUnlocated_def hasCoords_def exampleLocation_def)
  have k: "(1::int) \<le> 2" by simp
  have len5: "length fiveUnlocated = 5" by (simp add: fiveUnlocated_def)
  have null: "\<forall>loc \<in> set fiveUnlocated. loc_lat loc = None \<and> loc_lng loc = None"
    by (simp add: fiveUnlocated_def exampleLocation_def)
  have sz: "nat \<lceil>real (5::nat) / real_of_int 2\<rceil> = 3" by simp
  note t = roundRobin_division [OF ex k, of exampleEnv "''monday''" None,
      unfolded Let_def len5, unfolded sz]
  note t6 = t [THEN conjunct2, THEN conjunct2, THEN conjunct2, THEN conjunct2, THEN conjunct2]
  note t5 = t [THEN conjunct2, THEN conjunct2, THEN conjunct2, THEN conjunct2, THEN conjunct1]
  note t2 = t [THEN conjunct2, THEN conjunct1]
  have rows: "map (\<lambda>r. (length (sliceInner (stopsJson r)), totalDistance r, estimatedTime r))
               ?routes = [(3, None, Some 45), (2, None, Some 30)]"
    by (rule t6 [rule_format]) (intro conjI refl null)
  have len: "length ?routes = 2"
    unfolding t2 by (simp add: blockCount_def)
  have b0: "blockOf 3 0 fiveUnlocated =
            [exampleLocation ''A'' None None, exampleLocation ''B'' None None,
             exampleLocation ''C'' None None]"
    by (simp add: blockOf_def fiveUnlocated_def)
  have b1: "blockOf 3 1 fiveUnlocated =
            [exampleLocation ''D'' None None, exampleLocation ''E'' None None]"
    by (simp add: blockOf_def fiveUnlocated_def)
  have n0: "blockResult exampleEnv 0 (blockOf 3 0 fiveUnlocated) = None"
    unfolding b0 by (rule unlocated_block(2)) (simp_all add: exampleLocation_def)
  have n1: "blockResult exampleEnv 1 (blockOf 3 1 fiveUnlocated) = None"
    unfolding b1 by (rule unlocated_block(2)) (simp_all add: exampleLocation_def)
  have j0: "0 < length ?routes" and j1: "1 < length ?routes" unfolding len by simp_all
  note r0 = t5 [rule_format, OF j0, THEN conjunct2, THEN conjunct2, THEN conjunct2,
      THEN conjunct2, rule_format, OF n0]
  note r1 = t5 [rule_format, OF j1, THEN conjunct2, THEN conjunct2, THEN conjunct2,
      THEN conjunct2, rule_format, OF n1]
  have i0: "map locationId (sliceInner (stopsJson (?routes ! 0))) =
            [Some ''A'', Some ''B'', Some ''C'']"
    unfolding r0 b0 by (simp add: exampleLocation_def)
  have i1: "map locationId (sliceInner (stopsJson (?routes ! 1))) = [Some ''D'', Some ''E'']"
    unfolding r1 b1 by (simp add: exampleLocation_def)
  show ?thesis by (intro conjI rows i0 i1)
qed

end
